theory Spec2Isabelle
  imports Main "HOL-Library.AList"
begin

section \<open>JavaScript values, objects and the heap\<close>

text \<open>
  The container of \<^verbatim>\<open>ng-simple-state-base-store.ts\<close> holds JavaScript objects, compares
  selected values with \<^verbatim>\<open>===\<close> and hands references to its callers, so objects live in
  an explicit heap and a value is either a primitive or a reference into it.

  \<^item> Numbers are integers here: none of the modelled code does arithmetic, and on
    integers \<^verbatim>\<open>===\<close> is plain equality.
  \<^item> A property key is either an integer key (\<open>Idx n\<close>, the key whose canonical
    numeric string is \<open>n\<close>) or any other string (\<open>Name\<close>). The integer keys below
    \<open>2\<^sup>3\<^sup>2 - 1\<close> are the array indices.
  \<^item> An object is a plain object or an array. Its properties are writable,
    enumerable data properties; an array has its \<^verbatim>\<open>length\<close> besides, which is no
    enumerable property, so a hole at the end of an array shows in \<open>len\<close> only. An
    object has a prototype: the built-in one of its class (\<^verbatim>\<open>Object.prototype\<close>,
    or \<^verbatim>\<open>Array.prototype\<close> before it), none, or another object.
  \<^item> The heap is a list of objects, an address is an index into it, and allocation
    appends. Callbacks supplied by the application (reducers, selectors,
    \<^verbatim>\<open>initialState()\<close>) read the heap and return the objects they allocate together
    with their result, so they cannot change an object that exists already: this is the
    \<^verbatim>\<open>Readonly<S>\<close> contract of their parameter.
\<close>

type_synonym addr = nat

datatype pkey = Idx nat | Name string

datatype jsval = Undefined | Null | JBool bool | JNum int | JStr string | Ref addr

datatype prototype = Builtin | NoProto | Proto addr

type_synonym fields = "(pkey \<times> jsval) list"

record jsobj =
  is_array :: bool
  len :: nat
  proto :: prototype
  props :: fields

type_synonym heap = "jsobj list"

datatype error = TypeError | RangeError

text \<open>The literals \<^verbatim>\<open>{k: v, ...}\<close> and, with its length, \<^verbatim>\<open>[v, ...]\<close>.\<close>

definition plain_object :: "fields \<Rightarrow> jsobj" where
  "plain_object fs = \<lparr>is_array = False, len = 0, proto = Builtin, props = fs\<rparr>"

definition array_object :: "nat \<Rightarrow> fields \<Rightarrow> jsobj" where
  "array_object n fs = \<lparr>is_array = True, len = n, proto = Builtin, props = fs\<rparr>"

text \<open>A callback without argument, and one with the state as its argument.\<close>

type_synonym ext0 = "heap \<Rightarrow> jsobj list \<times> jsval"
type_synonym ext1 = "heap \<Rightarrow> jsval \<Rightarrow> jsobj list \<times> jsval"

text \<open>The values that \<^verbatim>\<open>!x\<close> and \<^verbatim>\<open>x || y\<close> treat as false.\<close>

fun falsy :: "jsval \<Rightarrow> bool" where
  "falsy Undefined = True"
| "falsy Null = True"
| "falsy (JBool b) = (\<not> b)"
| "falsy (JNum n) = (n = 0)"
| "falsy (JStr s) = (s = [])"
| "falsy (Ref a) = False"

definition deref :: "heap \<Rightarrow> jsval \<Rightarrow> jsobj option" where
  "deref h v = (case v of Ref a \<Rightarrow> (if a < length h then Some (h ! a) else None) | _ \<Rightarrow> None)"

definition Array_isArray :: "heap \<Rightarrow> jsval \<Rightarrow> bool" where
  "Array_isArray h v = (case deref h v of Some ob \<Rightarrow> is_array ob | None \<Rightarrow> False)"

subsection \<open>Own enumerable properties\<close>

definition is_idx :: "pkey \<Rightarrow> bool" where
  "is_idx k = (case k of Idx i \<Rightarrow> True | Name n \<Rightarrow> False)"

definition idx_of :: "pkey \<Rightarrow> nat" where
  "idx_of k = (case k of Idx i \<Rightarrow> i | Name n \<Rightarrow> 0)"

definition array_index :: "pkey \<Rightarrow> bool" where
  "array_index k = (case k of Idx i \<Rightarrow> i < 4294967295 | Name n \<Rightarrow> False)"

definition has_key :: "pkey \<Rightarrow> fields \<Rightarrow> bool" where
  "has_key k fs = (k \<in> set (map fst fs))"

text \<open>The order in which own keys are visited: integer keys ascending, then the others.\<close>

definition integer_keys_first :: "fields \<Rightarrow> fields" where
  "integer_keys_first fs =
     sort_key (\<lambda>kv. idx_of (fst kv)) (filter (\<lambda>kv. is_idx (fst kv)) fs) @
     filter (\<lambda>kv. \<not> is_idx (fst kv)) fs"

text \<open>
  The own enumerable properties of an object, each key once. The \<^verbatim>\<open>length\<close> of an
  array is not among them.
\<close>

definition own_fields :: "jsobj \<Rightarrow> fields" where
  "own_fields ob =
     integer_keys_first
       (AList.clearjunk
          (if is_array ob then filter (\<lambda>kv. fst kv \<noteq> Name ''length'') (props ob)
           else props ob))"

text \<open>
  What \<^verbatim>\<open>Object.assign\<close> and the spread syntax read from a source: nothing for
  \<^verbatim>\<open>undefined\<close>, \<^verbatim>\<open>null\<close>, booleans and numbers, the characters for a string, the own
  enumerable properties for an object.
\<close>

definition own_enumerable :: "heap \<Rightarrow> jsval \<Rightarrow> fields" where
  "own_enumerable h v =
     (case v of
        JStr s \<Rightarrow> map (\<lambda>i. (Idx i, JStr [s ! i])) [0..<length s]
      | Ref a \<Rightarrow> (case deref h (Ref a) of Some ob \<Rightarrow> own_fields ob | None \<Rightarrow> [])
      | _ \<Rightarrow> [])"

subsection \<open>Assignment to a property\<close>

text \<open>
  \<^verbatim>\<open>Object.assign\<close> stores with \<^verbatim>\<open>target[k] = v\<close>, which is not always the creation
  of a field.

  \<^item> On an array, \<^verbatim>\<open>length\<close> is its own length: the value must be a length, else
    a RangeError is thrown; a shorter length deletes the elements beyond it. As the
    type of the field is \<^verbatim>\<open>number\<close>, the conversion of a string or an object to a
    number is not modelled: such a value counts as no length.
  \<^item> \<^verbatim>\<open>__proto__\<close>, unless the target has a field of that name, is looked up along
    the prototype chain. Where the chain ends in the built-in prototype and no object on
    the way has a field of that name, the built-in setter runs: an object or \<^verbatim>\<open>null\<close>
    becomes the prototype, any other value is ignored, and no field is created.
  \<^item> Every other assignment creates or overwrites the field; an array index on an
    array raises the length where needed.
\<close>

fun reaches_setter :: "nat \<Rightarrow> heap \<Rightarrow> prototype \<Rightarrow> bool" where
  "reaches_setter n h Builtin = True"
| "reaches_setter n h NoProto = False"
| "reaches_setter 0 h (Proto a) = False"
| "reaches_setter (Suc n) h (Proto a) =
     (a < length h \<and> \<not> has_key (Name ''__proto__'') (props (h ! a)) \<and>
      reaches_setter n h (proto (h ! a)))"

fun to_length :: "jsval \<Rightarrow> nat option" where
  "to_length (JNum n) = (if 0 \<le> n \<and> n < 4294967296 then Some (nat n) else None)"
| "to_length (JBool b) = Some (if b then 1 else 0)"
| "to_length Null = Some 0"
| "to_length Undefined = None"
| "to_length (JStr s) = None"
| "to_length (Ref a) = None"

definition set_prototype :: "jsval \<Rightarrow> jsobj \<Rightarrow> jsobj" where
  "set_prototype v t =
     (case v of Ref a \<Rightarrow> t\<lparr>proto := Proto a\<rparr> | Null \<Rightarrow> t\<lparr>proto := NoProto\<rparr> | _ \<Rightarrow> t)"

definition set_length :: "nat \<Rightarrow> jsobj \<Rightarrow> jsobj" where
  "set_length n t =
     t\<lparr>len := n,
       props := filter (\<lambda>kv. \<not> (array_index (fst kv) \<and> n \<le> idx_of (fst kv))) (props t)\<rparr>"

definition define_field :: "pkey \<Rightarrow> jsval \<Rightarrow> jsobj \<Rightarrow> jsobj" where
  "define_field k v t =
     t\<lparr>props := AList.update k v (props t),
       len := (if is_array t \<and> array_index k then max (len t) (Suc (idx_of k)) else len t)\<rparr>"

definition set_prop :: "heap \<Rightarrow> jsobj \<Rightarrow> pkey \<Rightarrow> jsval \<Rightarrow> error + jsobj" where
  "set_prop h t k v =
     (if is_array t \<and> k = Name ''length'' then
        (case to_length v of None \<Rightarrow> Inl RangeError | Some n \<Rightarrow> Inr (set_length n t))
      else if k = Name ''__proto__'' \<and> \<not> has_key k (props t) \<and>
              reaches_setter (length h) h (proto t) then
        Inr (set_prototype v t)
      else Inr (define_field k v t))"

fun set_props :: "heap \<Rightarrow> jsobj \<Rightarrow> fields \<Rightarrow> error + jsobj" where
  "set_props h t [] = Inr t"
| "set_props h t ((k, v) # kvs) =
     (case set_prop h t k v of Inl err \<Rightarrow> Inl err | Inr t' \<Rightarrow> set_props h t' kvs)"

fun assign_from :: "heap \<Rightarrow> jsobj \<Rightarrow> jsval list \<Rightarrow> error + jsobj" where
  "assign_from h t [] = Inr t"
| "assign_from h t (src # srcs) =
     (case set_props h t (own_enumerable h src) of
        Inl err \<Rightarrow> Inl err
      | Inr t' \<Rightarrow> assign_from h t' srcs)"

text \<open>
  \<^verbatim>\<open>Object.assign(isArr ? [] : {}, ...sources)\<close> on a fresh target: the object that
  results, or the exception. The target is not on the heap before the call returns, so
  no source refers to it.
\<close>

definition object_assign :: "heap \<Rightarrow> bool \<Rightarrow> jsval list \<Rightarrow> error + jsobj" where
  "object_assign h isArr sources =
     assign_from h \<lparr>is_array = isArr, len = 0, proto = Builtin, props = []\<rparr> sources"

subsection \<open>The spread syntax\<close>

text \<open>
  \<^verbatim>\<open>{...a, ...b}\<close> defines a field for every own enumerable property of its operands,
  whatever the key: no setter runs.
\<close>

fun set_all :: "fields \<Rightarrow> fields \<Rightarrow> fields" where
  "set_all tgt [] = tgt"
| "set_all tgt ((k, v) # kvs) = set_all (AList.update k v tgt) kvs"

text \<open>On configuration objects, which are not shared and stay off the heap.\<close>

definition spread2 :: "fields \<Rightarrow> fields \<Rightarrow> fields" where
  "spread2 a b = set_all (set_all [] (AList.clearjunk a)) (AList.clearjunk b)"

text \<open>On values of the heap: the fields of \<^verbatim>\<open>{...a, ...b}\<close>.\<close>

definition spread_of :: "heap \<Rightarrow> jsval \<Rightarrow> jsval \<Rightarrow> fields" where
  "spread_of h a b = set_all (set_all [] (own_enumerable h a)) (own_enumerable h b)"

section \<open>Strings: what the action label is cut from\<close>

fun split :: "char \<Rightarrow> string \<Rightarrow> string list" where
  "split c [] = [[]]"
| "split c (x # xs) =
     (if x = c then [] # split c xs
      else (case split c xs of [] \<Rightarrow> [[x]] | w # ws \<Rightarrow> (x # w) # ws))"

definition is_ws :: "char \<Rightarrow> bool" where
  "is_ws c = (c \<in> set [CHR 0x09, CHR 0x0A, CHR 0x0B, CHR 0x0C, CHR 0x0D, CHR 0x20, CHR 0xA0])"

definition trim :: "string \<Rightarrow> string" where
  "trim s = rev (dropWhile is_ws (rev (dropWhile is_ws s)))"

text \<open>\<^verbatim>\<open>xs[i]\<close> on an array: \<^verbatim>\<open>undefined\<close> (here \<open>None\<close>) out of range.\<close>

definition nth_opt :: "'a list \<Rightarrow> nat \<Rightarrow> 'a option" where
  "nth_opt xs i = (if i < length xs then Some (xs ! i) else None)"

section \<open>The debug bridge (NgSimpleStateDevTool)\<close>

text \<open>
  \<open>baseState\<close> is the private aggregate map from store names to their latest state;
  \<open>sent\<close> lists what went to the browser extension, oldest first.
\<close>

datatype ext_msg = Init "(string \<times> jsval) list" | Send string "(string \<times> jsval) list"

record devtool =
  isActiveDevtool :: bool
  baseState :: "(string \<times> jsval) list"
  sent :: "ext_msg list"

text \<open>
  The constructor: \<open>globalDevtools\<close> says whether the extension is on \<^verbatim>\<open>window\<close>,
  \<open>connected\<close> whether its \<^verbatim>\<open>connect\<close> returned a session.
\<close>

definition new_devtool :: "bool \<Rightarrow> bool \<Rightarrow> devtool" where
  "new_devtool globalDevtools connected =
     (if globalDevtools then
        (if connected then \<lparr>isActiveDevtool = True, baseState = [], sent = [Init []]\<rparr>
         else \<lparr>isActiveDevtool = False, baseState = [], sent = []\<rparr>)
      else \<lparr>isActiveDevtool = False, baseState = [], sent = []\<rparr>)"

definition isActive :: "devtool \<Rightarrow> bool" where
  "isActive d = isActiveDevtool d"

text \<open>An \<^verbatim>\<open>undefined\<close> action name reads \<^verbatim>\<open>undefined\<close> in the template string.\<close>

definition send :: "string \<Rightarrow> string option \<Rightarrow> jsval \<Rightarrow> devtool \<Rightarrow> bool \<times> devtool" where
  "send storeName actionName state d =
     (if isActiveDevtool d then
        (let bs = AList.update storeName state (baseState d);
             label = storeName @ ''.'' @ (case actionName of None \<Rightarrow> ''undefined'' | Some a \<Rightarrow> a)
         in (True, d\<lparr>baseState := bs, sent := sent d @ [Send label bs]\<rparr>))
      else (False, d))"

section \<open>The container (NgSimpleStateBaseStore)\<close>

text \<open>The three calls a write makes on its collaborators and on the subject.\<close>

datatype event =
    DevToolSend string "string option" jsval
  | SetItem string jsval
  | Next jsval

text \<open>
  One subscriber of \<^verbatim>\<open>selectState\<close>: the projection of \<^verbatim>\<open>map\<close>, the key that
  \<^verbatim>\<open>distinctUntilChanged()\<close> holds (\<open>None\<close> before the first value) and the values passed
  on to \<^verbatim>\<open>observeOn(asyncScheduler)\<close>, which delivers them later, in this order.
\<close>

record subscription =
  project :: ext1
  key :: "jsval option"
  delivered :: "jsval list"

record store =
  heap :: heap
  state_value :: jsval
  observers :: "subscription list"
  localStorageIsEnabled :: bool
  devToolIsEnabled :: bool
  devTool :: devtool
  localStoreConfig :: fields
  storeName :: string
  firstState :: jsval
  isArray :: bool
  initialState :: ext0
  trace :: "event list"

text \<open>
  What the constructor gets from outside: the name of the concrete class, the injected
  process-wide configuration (\<open>None\<close> without a provider), what \<^verbatim>\<open>storeConfig()\<close> returns
  (\<open>None\<close> is \<^verbatim>\<open>null\<close>), the concrete class's \<^verbatim>\<open>initialState()\<close>, the persistence
  adapter's \<^verbatim>\<open>getItem\<close> and the injected debug bridge.
\<close>

record env =
  class_name :: string
  global_config :: "fields option"
  store_config :: "fields option"
  initial_state :: ext0
  storage_getItem :: "string \<Rightarrow> ext0"
  injected_devTool :: devtool

text \<open>
  The label taken from \<^verbatim>\<open>new Error().stack\<close> (\<open>None\<close> where the engine has no such
  property): line 3, trimmed, its second word, what follows the first dot. Calling a
  method of \<^verbatim>\<open>undefined\<close> is a TypeError; a word without a dot gives \<^verbatim>\<open>undefined\<close>.
\<close>

definition stack_label :: "string option \<Rightarrow> error + string option" where
  "stack_label stack =
     (case stack of
        None \<Rightarrow> Inl TypeError
      | Some st \<Rightarrow>
          (case nth_opt (split (CHR 0x0A) st) 3 of
             None \<Rightarrow> Inl TypeError
           | Some line \<Rightarrow>
               (case nth_opt (split (CHR 0x20) (trim line)) 1 of
                  None \<Rightarrow> Inl TypeError
                | Some word \<Rightarrow> Inr (nth_opt (split CHR ''.'' word) 1))))"

text \<open>\<^verbatim>\<open>!actionName\<close>: the name is missing or the empty string.\<close>

definition no_name :: "string option \<Rightarrow> bool" where
  "no_name actionName = (case actionName of None \<Rightarrow> True | Some a \<Rightarrow> a = [])"

definition devToolSend ::
  "jsval \<Rightarrow> string option \<Rightarrow> string option \<Rightarrow> store \<Rightarrow> error + (bool \<times> store)" where
  "devToolSend newState actionName stack s =
     (if \<not> devToolIsEnabled s then Inr (False, s)
      else
        (case (if no_name actionName then stack_label stack else Inr actionName) of
           Inl e \<Rightarrow> Inl e
         | Inr name \<Rightarrow>
             (let (r, d) = send (storeName s) name newState (devTool s)
              in Inr (r, s\<lparr>devTool := d,
                           trace := trace s @ [DevToolSend (storeName s) name newState]\<rparr>))))"

text \<open>
  Modelled from the spec: the persistence adapter (NgSimpleStateLocalStorage), whose
  source is not in the repository. \<^verbatim>\<open>setItem(key, value) -> void\<close> stores a snapshot
  under the key; the container never reads it back after construction, so the call is
  recorded and nothing else changes.
\<close>

definition setItem :: "string \<Rightarrow> jsval \<Rightarrow> store \<Rightarrow> store" where
  "setItem k v s = s\<lparr>trace := trace s @ [SetItem k v]\<rparr>"

text \<open>\<^verbatim>\<open>distinctUntilChanged()\<close> without comparator: \<^verbatim>\<open>===\<close> against the held key.\<close>

definition distinctUntilChanged :: "jsval \<Rightarrow> subscription \<Rightarrow> subscription" where
  "distinctUntilChanged k sb =
     (if key sb = Some k then sb else sb\<lparr>key := Some k, delivered := delivered sb @ [k]\<rparr>)"

definition observer_next :: "jsval \<Rightarrow> heap \<Rightarrow> subscription \<Rightarrow> heap \<times> subscription" where
  "observer_next v h sb =
     (let (news, k) = project sb h v in (h @ news, distinctUntilChanged k sb))"

fun notify_all :: "jsval \<Rightarrow> heap \<Rightarrow> subscription list \<Rightarrow> heap \<times> subscription list" where
  "notify_all v h [] = (h, [])"
| "notify_all v h (sb # sbs) =
     (let (h1, sb') = observer_next v h sb;
          (h2, sbs') = notify_all v h1 sbs
      in (h2, sb' # sbs'))"

text \<open>\<^verbatim>\<open>state$.next(v)\<close>: the subject keeps the value and tells every observer at once.\<close>

definition subject_next :: "jsval \<Rightarrow> store \<Rightarrow> store" where
  "subject_next v s =
     (let (h, obs) = notify_all v (heap s) (observers s)
      in s\<lparr>heap := h, state_value := v, observers := obs, trace := trace s @ [Next v]\<rparr>)"

definition resolve_bool :: "fields \<Rightarrow> string \<Rightarrow> bool" where
  "resolve_bool cfg k = (case map_of cfg (Name k) of Some (JBool b) \<Rightarrow> b | _ \<Rightarrow> False)"

definition resolve_name :: "fields \<Rightarrow> string \<Rightarrow> string" where
  "resolve_name cfg cls = (case map_of cfg (Name ''storeName'') of Some (JStr n) \<Rightarrow> n | _ \<Rightarrow> cls)"

definition constructor :: "env \<Rightarrow> heap \<Rightarrow> error + store" where
  "constructor e h0 =
     (let globalConfig = (case global_config e of None \<Rightarrow> [] | Some c \<Rightarrow> c);
          storeConfig = (case store_config e of None \<Rightarrow> [] | Some c \<Rightarrow> c);
          cfg = spread2 globalConfig storeConfig;
          lsEnabled = resolve_bool cfg ''enableLocalStorage'';
          dtEnabled = resolve_bool cfg ''enableDevTool'';
          name = resolve_name cfg (class_name e);
          (news1, loaded) = (if lsEnabled then storage_getItem e name h0 else ([], Undefined));
          h1 = h0 @ news1;
          (news2, first) = (if falsy loaded then initial_state e h1 else ([], loaded));
          h2 = h1 @ news2;
          s0 = \<lparr>heap = h2, state_value = Undefined, observers = [],
                localStorageIsEnabled = lsEnabled, devToolIsEnabled = dtEnabled,
                devTool = injected_devTool e, localStoreConfig = cfg, storeName = name,
                firstState = first, isArray = False, initialState = initial_state e,
                trace = []\<rparr>
      in case devToolSend first (Some ''initialState'') None s0 of
           Inl err \<Rightarrow> Inl err
         | Inr (r, s1) \<Rightarrow>
             (let isArr = Array_isArray h2 first
              in case object_assign h2 isArr [first] of
                   Inl err \<Rightarrow> Inl err
                 | Inr ob \<Rightarrow>
                     Inr (s1\<lparr>isArray := isArr, heap := h2 @ [ob],
                             state_value := Ref (length h2)\<rparr>)))"

definition getCurrentState :: "store \<Rightarrow> jsval" where
  "getCurrentState s = state_value s"

text \<open>
  \<open>stack\<close> is what \<^verbatim>\<open>new Error().stack\<close> holds inside \<^verbatim>\<open>devToolSend\<close> during this call.
  An exception leaves the container as it was: the caller goes on with the store it had.
\<close>

definition setState :: "ext1 \<Rightarrow> string option \<Rightarrow> string option \<Rightarrow> store \<Rightarrow> error + store" where
  "setState stateFn actionName stack s =
     (let currState = getCurrentState s;
          (news, newState) = stateFn (heap s) currState;
          h1 = heap s @ news
      in case (if isArray s then object_assign h1 True [newState]
               else object_assign h1 False [currState, newState]) of
           Inl err \<Rightarrow> Inl err
         | Inr ob \<Rightarrow>
             (let state = Ref (length h1);
                  s1 = s\<lparr>heap := h1 @ [ob]\<rparr>
              in case devToolSend state actionName stack s1 of
                   Inl err \<Rightarrow> Inl err
                 | Inr (r, s2) \<Rightarrow>
                     Inr (subject_next state
                            (if localStorageIsEnabled s2 then setItem (storeName s2) state s2
                             else s2))))"

definition resetState :: "store \<Rightarrow> error + store" where
  "resetState s = setState (\<lambda>h c. ([], firstState s)) (Some ''resetState'') None s"

definition restartState :: "store \<Rightarrow> error + store" where
  "restartState s = setState (\<lambda>h c. initialState s h) (Some ''restartState'') None s"

text \<open>
  \<^verbatim>\<open>selectState(selectFn)\<close>: the projection of the stream it returns. Without a selector
  it is a copy of the state, made at every emission. The copy cannot fail on a state of
  the container's class (an array has no enumerable \<^verbatim>\<open>length\<close>); the second branch
  only makes the function total.
\<close>

definition selectState :: "ext1 option \<Rightarrow> store \<Rightarrow> ext1" where
  "selectState selectFn s =
     (case selectFn of
        Some f \<Rightarrow> f
      | None \<Rightarrow>
          (\<lambda>h tmpState.
             case object_assign h (isArray s) [tmpState] of
               Inr ob \<Rightarrow> ([ob], Ref (length h))
             | Inl err \<Rightarrow> ([], Undefined)))"

text \<open>
  Subscribing to that stream: the subject replays its current value to the new observer,
  which projects it and passes it on, no key being held yet.
\<close>

definition subscribe :: "ext1 \<Rightarrow> store \<Rightarrow> store" where
  "subscribe f s =
     (let (h, sb) = observer_next (state_value s) (heap s)
                      \<lparr>project = f, key = None, delivered = []\<rparr>
      in s\<lparr>heap := h, observers := observers s @ [sb]\<rparr>)"

section \<open>Sequences of calls\<close>

datatype op =
    SetState ext1 "string option" "string option"
  | ResetState
  | RestartState
  | Subscribe "ext1 option"

fun step :: "store \<Rightarrow> op \<Rightarrow> error + store" where
  "step s (SetState f actionName stack) = setState f actionName stack s"
| "step s ResetState = resetState s"
| "step s RestartState = restartState s"
| "step s (Subscribe selectFn) = Inr (subscribe (selectState selectFn s) s)"

definition apply_op :: "store \<Rightarrow> op \<Rightarrow> store" where
  "apply_op s x = (case step s x of Inl err \<Rightarrow> s | Inr s' \<Rightarrow> s')"

definition exec :: "op list \<Rightarrow> store \<Rightarrow> store" where
  "exec ops s = foldl apply_op s ops"

section \<open>Notions the properties are stated with\<close>

text \<open>The object a caller finds behind \<^verbatim>\<open>getCurrentState()\<close>.\<close>

definition snapshot :: "store \<Rightarrow> jsobj option" where
  "snapshot s = deref (heap s) (getCurrentState s)"

definition record_shaped :: "heap \<Rightarrow> jsval \<Rightarrow> bool" where
  "record_shaped h v = (case deref h v of Some ob \<Rightarrow> \<not> is_array ob | None \<Rightarrow> False)"

text \<open>
  The object that step 3 of a write builds from the reducer's allocations and result, or
  the exception of that step.
\<close>

definition merged :: "store \<Rightarrow> jsobj list \<Rightarrow> jsval \<Rightarrow> error + jsobj" where
  "merged s news newState =
     (if isArray s then object_assign (heap s @ news) True [newState]
      else object_assign (heap s @ news) False [state_value s, newState])"

text \<open>
  The rest of a write, from the merged object on: the calls on the debug bridge, the
  persistence adapter and the subject.
\<close>

definition publish ::
  "jsobj \<Rightarrow> jsobj list \<Rightarrow> string option \<Rightarrow> string option \<Rightarrow> store \<Rightarrow> error + store" where
  "publish ob news actionName stack s =
     (let state = Ref (length (heap s @ news));
          s1 = s\<lparr>heap := (heap s @ news) @ [ob]\<rparr>
      in case devToolSend state actionName stack s1 of
           Inl err \<Rightarrow> Inl err
         | Inr (r, s2) \<Rightarrow>
             Inr (subject_next state
                    (if localStorageIsEnabled s2 then setItem (storeName s2) state s2
                     else s2)))"

text \<open>The action label is given, or not needed, or can be cut from the stack.\<close>

definition label_known :: "store \<Rightarrow> string option \<Rightarrow> string option \<Rightarrow> bool" where
  "label_known s actionName stack =
     (if devToolIsEnabled s \<and> no_name actionName
      then (case stack_label stack of Inl err \<Rightarrow> False | Inr l \<Rightarrow> True)
      else True)"

text \<open>One past the last array index among the keys: the length an array needs for them.\<close>

fun own_len :: "fields \<Rightarrow> nat" where
  "own_len [] = 0"
| "own_len ((k, v) # kvs) =
     (if array_index k then max (Suc (idx_of k)) (own_len kvs) else own_len kvs)"

text \<open>The values handed to \<^verbatim>\<open>state$.next\<close>, oldest first.\<close>

fun nexts :: "event list \<Rightarrow> jsval list" where
  "nexts [] = []"
| "nexts (Next v # evs) = v # nexts evs"
| "nexts (ev # evs) = nexts evs"

text \<open>
  A caller's \<^verbatim>\<open>v[k] = x\<close> on a reference it holds, for a key that names a field
  (not \<^verbatim>\<open>__proto__\<close>, and not the \<^verbatim>\<open>length\<close> of an array).
\<close>

definition assign_property :: "jsval \<Rightarrow> pkey \<Rightarrow> jsval \<Rightarrow> heap \<Rightarrow> heap" where
  "assign_property v k x h =
     (case v of
        Ref a \<Rightarrow> (if a < length h then h[a := define_field k x (h ! a)] else h)
      | _ \<Rightarrow> h)"

section \<open>Example containers\<close>

text \<open>Callbacks: an object literal, an array literal, a reducer that ignores the state.\<close>

definition new_object :: "fields \<Rightarrow> ext0" where
  "new_object fs h = ([plain_object fs], Ref (length h))"

definition new_array :: "jsval list \<Rightarrow> ext0" where
  "new_array vs h =
     ([array_object (length vs) (zip (map Idx [0..<length vs]) vs)], Ref (length h))"

definition returning :: "ext0 \<Rightarrow> ext1" where
  "returning lit h c = lit h"

definition no_snapshot :: "string \<Rightarrow> ext0" where
  "no_snapshot k h = ([], Undefined)"

text \<open>A record-shaped container with \<^verbatim>\<open>initialState() = {name: 'a', age: 1}\<close>.\<close>

definition profile_env :: env where
  "profile_env =
     \<lparr>class_name = ''ProfileStore'', global_config = None, store_config = None,
      initial_state = new_object [(Name ''name'', JStr ''a''), (Name ''age'', JNum 1)],
      storage_getItem = no_snapshot, injected_devTool = new_devtool True True\<rparr>"

definition profile_store :: store where
  "profile_store =
     \<lparr>heap = [(plain_object [(Name ''name'', JStr ''a''), (Name ''age'', JNum 1)]),
              (plain_object [(Name ''name'', JStr ''a''), (Name ''age'', JNum 1)])],
      state_value = Ref 1, observers = [],
      localStorageIsEnabled = False, devToolIsEnabled = False,
      devTool = new_devtool True True, localStoreConfig = [], storeName = ''ProfileStore'',
      firstState = Ref 0, isArray = False,
      initialState = new_object [(Name ''name'', JStr ''a''), (Name ''age'', JNum 1)],
      trace = []\<rparr>"

definition set_age :: op where
  "set_age = SetState (returning (new_object [(Name ''age'', JNum 2)])) (Some ''setAge'') None"

text \<open>An array-shaped container with \<^verbatim>\<open>initialState() = [1, 2, 3]\<close>.\<close>

definition list_env :: env where
  "list_env =
     \<lparr>class_name = ''ListStore'', global_config = None, store_config = None,
      initial_state = new_array [JNum 1, JNum 2, JNum 3],
      storage_getItem = no_snapshot, injected_devTool = new_devtool True True\<rparr>"

definition list_store :: store where
  "list_store =
     \<lparr>heap = [(array_object 3 [(Idx 0, JNum 1), (Idx 1, JNum 2), (Idx 2, JNum 3)]),
              (array_object 3 [(Idx 0, JNum 1), (Idx 1, JNum 2), (Idx 2, JNum 3)])],
      state_value = Ref 1, observers = [],
      localStorageIsEnabled = False, devToolIsEnabled = False,
      devTool = new_devtool True True, localStoreConfig = [], storeName = ''ListStore'',
      firstState = Ref 0, isArray = True,
      initialState = new_array [JNum 1, JNum 2, JNum 3],
      trace = []\<rparr>"

definition set_nine :: op where
  "set_nine = SetState (returning (new_array [JNum 9])) (Some ''setNine'') None"

text \<open>
  Structural equality of two values, as far as the properties below need it: the same
  value, or two objects of the same class and length with the same own enumerable keys
  and the same values under them. Values related so are equal under every deep comparison, and two
  arrays of different lengths are equal under none.
\<close>

definition structurally_equal :: "heap \<Rightarrow> jsval \<Rightarrow> jsval \<Rightarrow> bool" where
  "structurally_equal h v w =
     (v = w \<or>
      (case (deref h v, deref h w) of
         (Some a, Some b) \<Rightarrow>
           is_array a = is_array b \<and> len a = len b \<and>
           map_of (own_fields a) = map_of (own_fields b)
       | _ \<Rightarrow> False))"

text \<open>What holds of every subscriber: the key is the last value passed on.\<close>

definition sub_inv :: "subscription \<Rightarrow> bool" where
  "sub_inv sb =
     (key sb = (if delivered sb = [] then None else Some (last (delivered sb))) \<and>
      distinct_adj (delivered sb))"

text \<open>
  A subscriber of \<^verbatim>\<open>selectState()\<close> on the profile container, then
  \<^verbatim>\<open>setState(() => ({}), 'noop')\<close>.
\<close>

definition noop_write :: op where
  "noop_write = SetState (returning (new_object [])) (Some ''noop'') None"

definition watched_run :: store where
  "watched_run = exec [Subscribe None, noop_write] profile_store"

text \<open>What holds of the subject's value after every call: it is an object of the container's class.\<close>

definition shape_inv :: "store \<Rightarrow> bool" where
  "shape_inv s =
     (case deref (heap s) (state_value s) of Some ob \<Rightarrow> is_array ob = isArray s | None \<Rightarrow> False)"

text \<open>
  On the profile container, whose state type has an optional \<^verbatim>\<open>note\<close>:
  \<^verbatim>\<open>setState(() => ({note: 'x'}), 'addNote')\<close>, then \<^verbatim>\<open>resetState()\<close>.
\<close>

definition add_note :: op where
  "add_note =
     SetState (returning (new_object [(Name ''note'', JStr ''x'')])) (Some ''addNote'') None"

definition reset_run :: store where
  "reset_run = exec [add_note, ResetState] profile_store"

text \<open>A caller's \<^verbatim>\<open>store.getCurrentState().age = 99\<close> on the profile container.\<close>

definition tampered :: store where
  "tampered =
     profile_store\<lparr>heap := assign_property (getCurrentState profile_store) (Name ''age'')
                               (JNum 99) (heap profile_store)\<rparr>"

text \<open>
  The profile container with both collaborators switched on by its own
  \<^verbatim>\<open>storeConfig()\<close>, as the constructor leaves it.
\<close>

definition tracked_env :: env where
  "tracked_env = profile_env\<lparr>store_config :=
     Some [(Name ''enableLocalStorage'', JBool True), (Name ''enableDevTool'', JBool True)]\<rparr>"

definition tracked_store :: store where
  "tracked_store =
     \<lparr>heap = [(plain_object [(Name ''name'', JStr ''a''), (Name ''age'', JNum 1)]),
              (plain_object [(Name ''name'', JStr ''a''), (Name ''age'', JNum 1)])],
      state_value = Ref 1, observers = [],
      localStorageIsEnabled = True, devToolIsEnabled = True,
      devTool = \<lparr>isActiveDevtool = True, baseState = [(''ProfileStore'', Ref 0)],
                  sent = [Init [], Send ''ProfileStore.initialState'' [(''ProfileStore'', Ref 0)]]\<rparr>,
      localStoreConfig =
        [(Name ''enableLocalStorage'', JBool True), (Name ''enableDevTool'', JBool True)],
      storeName = ''ProfileStore'',
      firstState = Ref 0, isArray = False,
      initialState = new_object [(Name ''name'', JStr ''a''), (Name ''age'', JNum 1)],
      trace = [DevToolSend ''ProfileStore'' (Some ''initialState'') (Ref 0)]\<rparr>"

text \<open>The same container with both switched off explicitly.\<close>

definition untracked_store :: store where
  "untracked_store =
     profile_store\<lparr>localStoreConfig :=
       [(Name ''enableLocalStorage'', JBool False), (Name ''enableDevTool'', JBool False)]\<rparr>"

text \<open>
  What \<^verbatim>\<open>new Error().stack\<close> holds inside \<^verbatim>\<open>devToolSend\<close> when a method
  \<^verbatim>\<open>birthday\<close> of the container calls \<^verbatim>\<open>setState\<close>: in V8's format, and in
  SpiderMonkey's, which has no header line and no blanks.
\<close>

definition v8_stack :: string where
  "v8_stack = ''Error'' @ [CHR 0x0A] @
     ''    at ProfileStore.devToolSend (main.js:152:9)'' @ [CHR 0x0A] @
     ''    at ProfileStore.setState (main.js:127:14)'' @ [CHR 0x0A] @
     ''    at ProfileStore.birthday (main.js:12:14)'' @ [CHR 0x0A] @
     ''    at HTMLButtonElement.onclick (main.js:40:7)''"

definition gecko_stack :: string where
  "gecko_stack = ''devToolSend@main.js:152:9'' @ [CHR 0x0A] @
     ''setState@main.js:127:14'' @ [CHR 0x0A] @
     ''birthday@main.js:12:14'' @ [CHR 0x0A] @
     ''onclick@main.js:40:7''"

text \<open>\<^verbatim>\<open>setState(() => ({age: 2}))\<close> without an action name, under a given stack.\<close>

definition unnamed_write :: "string \<Rightarrow> op" where
  "unnamed_write stack =
     SetState (returning (new_object [(Name ''age'', JNum 2)])) None (Some stack)"

text \<open>The two configuration objects the constructor merges.\<close>

definition injected_config :: "env \<Rightarrow> fields" where
  "injected_config e = (case global_config e of None \<Rightarrow> [] | Some c \<Rightarrow> c)"

definition own_config :: "env \<Rightarrow> fields" where
  "own_config e = (case store_config e of None \<Rightarrow> [] | Some c \<Rightarrow> c)"

text \<open>The same concrete class with both collaborators switched on, or both off.\<close>

definition with_collaborators :: "bool \<Rightarrow> env \<Rightarrow> env" where
  "with_collaborators b e =
     e\<lparr>store_config := Some (spread2 (own_config e)
          [(Name ''enableLocalStorage'', JBool b), (Name ''enableDevTool'', JBool b)])\<rparr>"

definition store_name_of :: "env \<Rightarrow> string" where
  "store_name_of e = resolve_name (spread2 (injected_config e) (own_config e)) (class_name e)"

text \<open>Two containers that agree on the subject, its observers and what the subject got.\<close>

definition same_subject :: "store \<Rightarrow> store \<Rightarrow> bool" where
  "same_subject s t =
     (heap s = heap t \<and> state_value s = state_value t \<and> observers s = observers t \<and>
      firstState s = firstState t \<and> isArray s = isArray t \<and> initialState s = initialState t \<and>
      nexts (trace s) = nexts (trace t))"

text \<open>A call whose action label is given, or can be cut from the stack.\<close>

fun labelled :: "op \<Rightarrow> bool" where
  "labelled (SetState f actionName stack) =
     (if no_name actionName then (case stack_label stack of Inl err \<Rightarrow> False | Inr l \<Rightarrow> True)
      else True)"
| "labelled x = True"

definition isolation_ops :: "op list" where
  "isolation_ops = [set_age, unnamed_write v8_stack, ResetState]"

text \<open>The profile class where the persistence adapter holds \<^verbatim>\<open>{name: 'a', age: 7}\<close>.\<close>

definition saved_snapshot :: "string \<Rightarrow> ext0" where
  "saved_snapshot k = new_object [(Name ''name'', JStr ''a''), (Name ''age'', JNum 7)]"

definition saved_env :: env where
  "saved_env = profile_env\<lparr>storage_getItem := saved_snapshot\<rparr>"

text \<open>Construction on an empty heap, then a sequence of calls; what the caller then reads.\<close>

definition run :: "env \<Rightarrow> op list \<Rightarrow> error + store" where
  "run e ops = (case constructor e [] of Inl err \<Rightarrow> Inl err | Inr s \<Rightarrow> Inr (exec ops s))"

definition snapshot_of :: "error + store \<Rightarrow> jsobj option" where
  "snapshot_of r = (case r of Inl err \<Rightarrow> None | Inr s \<Rightarrow> snapshot s)"

text \<open>What holds of every state the container builds: it has no field \<^verbatim>\<open>__proto__\<close>.\<close>

definition no_proto_field :: "store \<Rightarrow> bool" where
  "no_proto_field s =
     (case deref (heap s) (state_value s) of
        Some ob \<Rightarrow> \<not> has_key (Name ''__proto__'') (props ob)
      | None \<Rightarrow> False)"

text \<open>
  On the profile container: \<^verbatim>\<open>setState(() => JSON.parse(text), 'load')\<close> where the text is
  \<^verbatim>\<open>{"age": 2, "__proto__": {"admin": true}}\<close>. The parser defines \<^verbatim>\<open>__proto__\<close> as a
  field of the object it returns.
\<close>

definition parsed_partial :: ext0 where
  "parsed_partial h =
     ([plain_object [(Name ''admin'', JBool True)],
       plain_object [(Name ''age'', JNum 2), (Name ''__proto__'', Ref (length h))]],
      Ref (Suc (length h)))"

definition load_write :: op where
  "load_write = SetState (returning parsed_partial) (Some ''load'') None"

definition load_run :: store where
  "load_run = exec [load_write] profile_store"

text \<open>The profile container after \<^verbatim>\<open>setState(() => ({note: 'x'}), 'addNote')\<close>.\<close>

definition noted_store :: store where
  "noted_store = exec [add_note] profile_store"

text \<open>On the list container: \<^verbatim>\<open>setState(() => new Array(3), 'clear')\<close>.\<close>

definition new_Array_3 :: ext0 where
  "new_Array_3 h = ([array_object 3 []], Ref (length h))"

definition clear_write :: op where
  "clear_write = SetState (returning new_Array_3) (Some ''clear'') None"

definition clear_run :: store where
  "clear_run = exec [clear_write] list_store"

section \<open>Basic facts\<close>

lemmas model_defs = constructor_def setState_def resetState_def restartState_def
  getCurrentState_def devToolSend_def subject_next_def setItem_def object_assign_def
  own_enumerable_def own_fields_def integer_keys_first_def has_key_def is_idx_def idx_of_def
  array_index_def set_prop_def set_length_def set_prototype_def define_field_def
  plain_object_def array_object_def deref_def Array_isArray_def spread2_def spread_of_def
  resolve_bool_def resolve_name_def
  no_name_def send_def new_devtool_def observer_next_def distinctUntilChanged_def
  selectState_def subscribe_def apply_op_def exec_def snapshot_def record_shaped_def
  assign_property_def new_object_def new_array_def returning_def no_snapshot_def Let_def


subsection \<open>Fields and keys\<close>

lemma map_of_set_all:
  "distinct (map fst kvs) \<Longrightarrow> map_of (set_all tgt kvs) = map_of tgt ++ map_of kvs"
proof (induction kvs arbitrary: tgt)
  case Nil
  then show ?case by simp
next
  case (Cons p kvs)
  obtain k v where p: "p = (k, v)" by (cases p)
  from Cons.prems p have notin: "map_of kvs k = None" and d: "distinct (map fst kvs)"
    by (auto simp: map_of_eq_None_iff)
  have "map_of (set_all tgt (p # kvs)) = map_of (AList.update k v tgt) ++ map_of kvs"
    using Cons.IH [OF d] p by simp
  also have "\<dots> = map_of tgt ++ map_of (p # kvs)"
    using notin p by (auto simp: fun_eq_iff map_add_def update_conv' split: option.splits)
  finally show ?case .
qed

lemma has_key_set_all: "has_key k (set_all tgt kvs) = (has_key k tgt \<or> has_key k kvs)"
  by (induction tgt kvs rule: set_all.induct) (auto simp: has_key_def dom_update)

lemma set_integer_keys_first: "set (integer_keys_first fs) = set fs"
  by (auto simp: integer_keys_first_def)

lemma distinct_integer_keys_first:
  assumes "distinct (map fst fs)"
  shows "distinct (map fst (integer_keys_first fs))"
proof -
  from assms have d: "distinct fs" and i: "inj_on fst (set fs)"
    by (simp_all add: distinct_map)
  have "distinct (integer_keys_first fs)"
    using d by (auto simp: integer_keys_first_def)
  then show ?thesis
    using i by (simp add: distinct_map set_integer_keys_first)
qed

lemma map_of_integer_keys_first:
  assumes "distinct (map fst fs)"
  shows "map_of (integer_keys_first fs) = map_of fs"
  using assms distinct_integer_keys_first [OF assms]
  by (simp add: map_of_inject_set set_integer_keys_first)

lemma has_key_integer_keys_first: "has_key k (integer_keys_first fs) = has_key k fs"
  by (simp add: has_key_def set_integer_keys_first)

lemma distinct_own_fields: "distinct (map fst (own_fields ob))"
  by (simp add: own_fields_def distinct_integer_keys_first)

lemma map_of_own_fields: "\<not> is_array ob \<Longrightarrow> map_of (own_fields ob) = map_of (props ob)"
  by (simp add: own_fields_def map_of_integer_keys_first map_of_clearjunk)

lemma has_key_clearjunk: "has_key k (AList.clearjunk fs) = has_key k fs"
  by (simp only: has_key_def clearjunk_keys_set)

lemma has_key_filter_name:
  "has_key k (filter (\<lambda>kv. fst kv \<noteq> l) fs) = (has_key k fs \<and> k \<noteq> l)"
  by (induction fs) (auto simp: has_key_def)

lemma has_key_own_fields:
  "has_key k (own_fields ob) = (has_key k (props ob) \<and> \<not> (is_array ob \<and> k = Name ''length''))"
  by (simp add: own_fields_def has_key_integer_keys_first has_key_clearjunk has_key_filter_name)

lemma distinct_own_enumerable: "distinct (map fst (own_enumerable h v))"
proof (cases v)
  case (JStr s)
  then show ?thesis
    by (simp add: own_enumerable_def distinct_map inj_on_def comp_def)
next
  case (Ref a)
  then show ?thesis
    by (simp add: own_enumerable_def distinct_own_fields split: option.splits)
qed (simp_all add: own_enumerable_def)

lemma own_enumerable_deref: "deref h v = Some ob \<Longrightarrow> own_enumerable h v = own_fields ob"
  by (cases v) (auto simp: own_enumerable_def deref_def split: if_splits)

lemma own_enumerable_array_no_length:
  "Array_isArray h v \<Longrightarrow> \<not> has_key (Name ''length'') (own_enumerable h v)"
  by (cases v)
    (auto simp: Array_isArray_def own_enumerable_def deref_def has_key_own_fields
      split: if_splits option.splits)

subsection \<open>Assignment\<close>

lemma set_prop_class: "set_prop h t k v = Inr t' \<Longrightarrow> is_array t' = is_array t"
  by (auto simp: set_prop_def set_length_def set_prototype_def define_field_def
      split: if_splits option.splits jsval.splits)

lemma set_props_class: "set_props h t kvs = Inr t' \<Longrightarrow> is_array t' = is_array t"
proof (induction kvs arbitrary: t)
  case Nil
  then show ?case by simp
next
  case (Cons p kvs)
  obtain k v where p: "p = (k, v)" by (cases p)
  with Cons.prems obtain t1 where t1: "set_prop h t k v = Inr t1"
    and rest: "set_props h t1 kvs = Inr t'"
    by (auto split: sum.splits)
  show ?case
    using Cons.IH [OF rest] set_prop_class [OF t1] by simp
qed

lemma assign_from_class: "assign_from h t srcs = Inr t' \<Longrightarrow> is_array t' = is_array t"
proof (induction srcs arbitrary: t)
  case Nil
  then show ?case by simp
next
  case (Cons src srcs)
  then obtain t1 where t1: "set_props h t (own_enumerable h src) = Inr t1"
    and rest: "assign_from h t1 srcs = Inr t'"
    by (auto split: sum.splits)
  show ?case
    using Cons.IH [OF rest] set_props_class [OF t1] by simp
qed

lemma object_assign_class: "object_assign h b srcs = Inr ob \<Longrightarrow> is_array ob = b"
  using assign_from_class [of h _ srcs ob] by (simp add: object_assign_def)

text \<open>Without the two special keys, assignment is the creation of fields.\<close>

lemma set_props_plain:
  assumes "\<not> has_key (Name ''__proto__'') kvs"
    and "is_array t \<longrightarrow> \<not> has_key (Name ''length'') kvs"
  shows "set_props h t kvs =
           Inr (t\<lparr>props := set_all (props t) kvs,
                  len := (if is_array t then max (len t) (own_len kvs) else len t)\<rparr>)"
  using assms
proof (induction kvs arbitrary: t)
  case Nil
  then show ?case by simp
next
  case (Cons p kvs)
  obtain k v where p: "p = (k, v)" by (cases p)
  from Cons.prems p have k: "k \<noteq> Name ''__proto__''" "is_array t \<longrightarrow> k \<noteq> Name ''length''"
    and rest: "\<not> has_key (Name ''__proto__'') kvs"
      "is_array (define_field k v t) \<longrightarrow> \<not> has_key (Name ''length'') kvs"
    by (auto simp: has_key_def define_field_def)
  have one: "set_prop h t k v = Inr (define_field k v t)"
    using k by (auto simp: set_prop_def)
  show ?case
    using Cons.IH [OF rest] one p
    by (auto simp: define_field_def array_index_def max.assoc split: pkey.splits)
qed

lemma set_props_returns:
  assumes "is_array t \<longrightarrow> \<not> has_key (Name ''length'') kvs"
  shows "\<exists>t'. set_props h t kvs = Inr t'"
  using assms
proof (induction kvs arbitrary: t)
  case Nil
  then show ?case by simp
next
  case (Cons p kvs)
  obtain k v where p: "p = (k, v)" by (cases p)
  from Cons.prems p have "is_array t \<longrightarrow> k \<noteq> Name ''length''"
    by (auto simp: has_key_def)
  then have "\<exists>t1. set_prop h t k v = Inr t1"
    by (auto simp: set_prop_def)
  then obtain t1 where t1: "set_prop h t k v = Inr t1" ..
  have "is_array t1 \<longrightarrow> \<not> has_key (Name ''length'') kvs"
    using Cons.prems p set_prop_class [OF t1] by (auto simp: has_key_def)
  from Cons.IH [OF this] t1 p show ?case by simp
qed

lemma assign_from_returns:
  assumes "\<not> is_array t"
  shows "\<exists>t'. assign_from h t srcs = Inr t'"
  using assms
proof (induction srcs arbitrary: t)
  case Nil
  then show ?case by simp
next
  case (Cons src srcs)
  obtain t1 where t1: "set_props h t (own_enumerable h src) = Inr t1"
    using set_props_returns [of t "own_enumerable h src" h] Cons.prems by auto
  have "\<not> is_array t1"
    using set_props_class [OF t1] Cons.prems by simp
  from Cons.IH [OF this] t1 show ?case by simp
qed

text \<open>Copying into an object never fails, and copying an array into an array neither.\<close>

lemma object_assign_record_returns: "\<exists>ob. object_assign h False srcs = Inr ob"
  using assign_from_returns by (simp add: object_assign_def)

lemma object_assign_array_returns:
  assumes "\<not> has_key (Name ''length'') (own_enumerable h v)"
  shows "\<exists>ob. object_assign h True [v] = Inr ob"
proof -
  obtain t1 where "set_props h \<lparr>is_array = True, len = 0, proto = Builtin, props = []\<rparr>
      (own_enumerable h v) = Inr t1"
    using set_props_returns [of _ "own_enumerable h v" h] assms by blast
  then show ?thesis by (simp add: object_assign_def)
qed

lemma object_assign_copy_returns:
  "\<exists>ob. object_assign h (Array_isArray h v) [v] = Inr ob"
  using object_assign_record_returns [of h "[v]"]
    object_assign_array_returns [OF own_enumerable_array_no_length, of h v]
  by (cases "Array_isArray h v") auto

subsection \<open>No field named \<^verbatim>\<open>__proto__\<close> comes out of a copy\<close>

lemma has_key_define_field:
  "has_key k (props (define_field j v t)) = (k = j \<or> has_key k (props t))"
  by (auto simp: define_field_def has_key_def dom_update)

lemma has_key_set_length:
  "\<not> array_index k \<Longrightarrow> has_key k (props (set_length n t)) = has_key k (props t)"
  by (auto simp: set_length_def has_key_def)

lemma proto_unchanged:
  "proto (set_length n t) = proto t" "proto (define_field k v t) = proto t"
  by (simp_all add: set_length_def define_field_def)

lemma set_prop_other_key:
  assumes "set_prop h t k v = Inr t'" and "k \<noteq> Name ''__proto__''"
  shows "proto t' = proto t"
    and "has_key (Name ''__proto__'') (props t') = has_key (Name ''__proto__'') (props t)"
  using assms
  by (auto simp: set_prop_def proto_unchanged has_key_define_field has_key_set_length
      array_index_def split: if_splits option.splits)

lemma set_props_other_keys:
  assumes "set_props h t kvs = Inr t'" and "\<not> has_key (Name ''__proto__'') kvs"
  shows "proto t' = proto t \<and>
         has_key (Name ''__proto__'') (props t') = has_key (Name ''__proto__'') (props t)"
  using assms
proof (induction kvs arbitrary: t)
  case Nil
  then show ?case by simp
next
  case (Cons p kvs)
  obtain k v where p: "p = (k, v)" by (cases p)
  with Cons.prems obtain t1 where t1: "set_prop h t k v = Inr t1"
    and rest: "set_props h t1 kvs = Inr t'"
    by (auto split: sum.splits)
  from Cons.prems p have k: "k \<noteq> Name ''__proto__''"
    and tl: "\<not> has_key (Name ''__proto__'') kvs"
    by (auto simp: has_key_def)
  show ?case
    using Cons.IH [OF rest tl] set_prop_other_key [OF t1 k] by simp
qed

lemma set_props_no_proto_field:
  assumes "set_props h t kvs = Inr t'" and "distinct (map fst kvs)"
    and "\<not> has_key (Name ''__proto__'') (props t)" and "proto t = Builtin"
  shows "\<not> has_key (Name ''__proto__'') (props t')"
  using assms
proof (induction kvs arbitrary: t)
  case Nil
  then show ?case by simp
next
  case (Cons p kvs)
  obtain k v where p: "p = (k, v)" by (cases p)
  with Cons.prems obtain t1 where t1: "set_prop h t k v = Inr t1"
    and rest: "set_props h t1 kvs = Inr t'"
    by (auto split: sum.splits)
  from Cons.prems p have d: "distinct (map fst kvs)" and nk: "\<not> has_key k kvs"
    by (auto simp: has_key_def)
  show ?case
  proof (cases "k = Name ''__proto__''")
    case True
    then have "t1 = set_prototype v t"
      using t1 Cons.prems(3,4) by (simp add: set_prop_def)
    then have "\<not> has_key (Name ''__proto__'') (props t1)"
      using Cons.prems(3) by (simp add: set_prototype_def split: jsval.splits)
    moreover have "\<not> has_key (Name ''__proto__'') kvs"
      using nk True by simp
    ultimately show ?thesis
      using set_props_other_keys [OF rest] by simp
  next
    case False
    then have "proto t1 = Builtin" "\<not> has_key (Name ''__proto__'') (props t1)"
      using set_prop_other_key [OF t1 False] Cons.prems(3,4) by simp_all
    then show ?thesis
      using Cons.IH [OF rest d] by simp
  qed
qed

lemma object_assign_no_proto_field1:
  assumes "object_assign h b [v] = Inr ob"
  shows "\<not> has_key (Name ''__proto__'') (props ob)"
proof -
  let ?t = "\<lparr>is_array = b, len = 0, proto = Builtin, props = []\<rparr>"
  from assms have "set_props h ?t (own_enumerable h v) = Inr ob"
    by (auto simp: object_assign_def split: sum.splits)
  then show ?thesis
    by (rule set_props_no_proto_field) (simp_all add: distinct_own_enumerable has_key_def)
qed

lemma object_assign_no_proto_field2:
  assumes "object_assign h b [u, v] = Inr ob"
    and "\<not> has_key (Name ''__proto__'') (own_enumerable h u)"
  shows "\<not> has_key (Name ''__proto__'') (props ob)"
proof -
  let ?t = "\<lparr>is_array = b, len = 0, proto = Builtin, props = []\<rparr>"
  from assms obtain t1 where t1: "set_props h ?t (own_enumerable h u) = Inr t1"
    and rest: "set_props h t1 (own_enumerable h v) = Inr ob"
    by (auto simp: object_assign_def split: sum.splits)
  have "proto t1 = Builtin" "\<not> has_key (Name ''__proto__'') (props t1)"
    using set_props_other_keys [OF t1 assms(2)] by (simp_all add: has_key_def)
  with rest show ?thesis
    by (intro set_props_no_proto_field [OF rest]) (simp_all add: distinct_own_enumerable)
qed

subsection \<open>What a copy without special keys is\<close>

lemma object_assign_record:
  assumes "\<not> has_key (Name ''__proto__'') (own_enumerable h u)"
    and "\<not> has_key (Name ''__proto__'') (own_enumerable h v)"
  shows "object_assign h False [u, v] = Inr (plain_object (spread_of h u v))"
  using assms
  by (simp add: object_assign_def set_props_plain plain_object_def spread_of_def)

lemma object_assign_array:
  assumes "\<not> has_key (Name ''__proto__'') (own_enumerable h v)"
    and "\<not> has_key (Name ''length'') (own_enumerable h v)"
  shows "object_assign h True [v] =
           Inr (array_object (own_len (own_enumerable h v)) (set_all [] (own_enumerable h v)))"
  using assms
  by (simp add: object_assign_def set_props_plain array_object_def)

lemma map_of_spread_of:
  "map_of (spread_of h u v) = map_of (own_enumerable h u) ++ map_of (own_enumerable h v)"
  by (simp add: spread_of_def map_of_set_all distinct_own_enumerable)

subsection \<open>The parts of a write\<close>

lemma deref_append: "deref h v = Some ob \<Longrightarrow> deref (h @ ys) v = Some ob"
  by (cases v) (auto simp: deref_def nth_append split: if_splits)

lemma deref_fresh: "deref (h @ ob # ys) (Ref (length h)) = Some ob"
  by (simp add: deref_def)

lemma observer_next_heap: "\<exists>ys. fst (observer_next v h sb) = h @ ys"
  by (simp add: observer_next_def split: prod.split)

lemma notify_all_heap: "\<exists>ys. fst (notify_all v h sbs) = h @ ys"
proof (induction sbs arbitrary: h)
  case Nil
  then show ?case by simp
next
  case (Cons sb sbs)
  obtain h1 sb' where o: "observer_next v h sb = (h1, sb')"
    by (cases "observer_next v h sb")
  obtain ys where ys: "h1 = h @ ys"
    using observer_next_heap [of v h sb] o by auto
  obtain zs where zs: "fst (notify_all v h1 sbs) = h1 @ zs"
    using Cons.IH [of h1] by auto
  show ?case using o ys zs by (auto split: prod.split)
qed

lemma subject_next_fields:
  "state_value (subject_next v s) = v"
  "isArray (subject_next v s) = isArray s"
  "firstState (subject_next v s) = firstState s"
  "initialState (subject_next v s) = initialState s"
  "localStorageIsEnabled (subject_next v s) = localStorageIsEnabled s"
  "devToolIsEnabled (subject_next v s) = devToolIsEnabled s"
  "storeName (subject_next v s) = storeName s"
  "devTool (subject_next v s) = devTool s"
  "trace (subject_next v s) = trace s @ [Next v]"
  by (simp_all add: subject_next_def split: prod.split)

lemma subject_next_heap: "\<exists>ys. heap (subject_next v s) = heap s @ ys"
  using notify_all_heap [of v "heap s" "observers s"]
  by (auto simp: subject_next_def split: prod.split)

lemma devToolSend_fields:
  assumes "devToolSend v an st s = Inr (r, s')"
  shows "heap s' = heap s" "state_value s' = state_value s" "observers s' = observers s"
    "isArray s' = isArray s" "firstState s' = firstState s" "initialState s' = initialState s"
    "localStorageIsEnabled s' = localStorageIsEnabled s"
    "devToolIsEnabled s' = devToolIsEnabled s" "storeName s' = storeName s"
  using assms by (auto simp: devToolSend_def split: if_splits sum.splits prod.splits)

lemma stack_label_error: "stack_label stack = Inl err \<Longrightarrow> err = TypeError"
  by (auto simp: stack_label_def split: option.splits)

text \<open>A write is the merge, then the calls on the collaborators and the subject.\<close>

lemma setState_unfold:
  assumes "stateFn (heap s) (state_value s) = (news, newState)"
  shows "setState stateFn an st s =
           (case merged s news newState of
              Inl err \<Rightarrow> Inl err
            | Inr ob \<Rightarrow> publish ob news an st s)"
  using assms
  by (auto simp: setState_def merged_def publish_def getCurrentState_def Let_def
      split: sum.splits)

lemma is_array_merged: "merged s news nv = Inr ob \<Longrightarrow> is_array ob = isArray s"
  by (auto simp: merged_def dest: object_assign_class split: if_splits)

lemma publish_Inr:
  assumes ok: "publish ob news an st s = Inr s'"
  shows "\<exists>ys. heap s' = heap s @ news @ [ob] @ ys"
    and "state_value s' = Ref (length (heap s) + length news)"
    and "isArray s' = isArray s" and "firstState s' = firstState s"
    and "initialState s' = initialState s"
    and "localStorageIsEnabled s' = localStorageIsEnabled s"
    and "devToolIsEnabled s' = devToolIsEnabled s" and "storeName s' = storeName s"
proof -
  define s1 where "s1 = s\<lparr>heap := (heap s @ news) @ [ob]\<rparr>"
  define v where "v = Ref (length (heap s @ news))"
  from ok obtain r s2 where d: "devToolSend v an st s1 = Inr (r, s2)"
    and s': "s' = subject_next v
                   (if localStorageIsEnabled s2 then setItem (storeName s2) v s2 else s2)"
    by (auto simp: publish_def Let_def s1_def v_def split: sum.splits prod.splits)
  note df = devToolSend_fields [OF d]
  let ?s3 = "if localStorageIsEnabled s2 then setItem (storeName s2) v s2 else s2"
  have h3: "heap ?s3 = heap s @ news @ [ob]"
    using df by (simp add: setItem_def s1_def)
  show "\<exists>ys. heap s' = heap s @ news @ [ob] @ ys"
    using subject_next_heap [of v ?s3] h3 by (auto simp: s')
  show "state_value s' = Ref (length (heap s) + length news)"
    by (simp add: s' subject_next_fields v_def)
  show "isArray s' = isArray s" "firstState s' = firstState s"
    "initialState s' = initialState s"
    "localStorageIsEnabled s' = localStorageIsEnabled s"
    "devToolIsEnabled s' = devToolIsEnabled s" "storeName s' = storeName s"
    using df by (simp_all add: s' subject_next_fields setItem_def s1_def)
qed

lemma publish_snapshot:
  assumes ok: "publish ob news an st s = Inr s'"
  shows "snapshot s' = Some ob"
proof -
  obtain ys where h: "heap s' = heap s @ news @ [ob] @ ys"
    using publish_Inr(1) [OF ok] by blast
  have "deref ((heap s @ news) @ ob # ys) (Ref (length (heap s @ news))) = Some ob"
    by (rule deref_fresh)
  then show ?thesis
    using h publish_Inr(2) [OF ok] by (simp add: snapshot_def getCurrentState_def)
qed

lemma publish_returns:
  assumes "label_known s an st"
  shows "\<exists>s'. publish ob news an st s = Inr s'"
  using assms
  by (auto simp: publish_def label_known_def devToolSend_def Let_def
      split: prod.splits sum.splits if_splits)

lemma publish_throws:
  assumes "\<not> label_known s an st"
  shows "publish ob news an st s = Inl TypeError"
  using assms
  by (auto simp: publish_def label_known_def devToolSend_def Let_def
      dest: stack_label_error split: prod.splits sum.splits if_splits)

text \<open>What a write that returns leaves behind.\<close>

lemma setState_Inr:
  assumes ok: "setState stateFn an st s = Inr s'"
    and f: "stateFn (heap s) (state_value s) = (news, newState)"
  obtains ob where "merged s news newState = Inr ob" and "publish ob news an st s = Inr s'"
  using ok setState_unfold [of stateFn s news newState an st] f
  by (auto split: sum.splits)

lemma setState_returns:
  assumes f: "stateFn (heap s) (state_value s) = (news, newState)"
    and m: "merged s news newState = Inr ob"
    and l: "label_known s an st"
  shows "\<exists>s'. setState stateFn an st s = Inr s'"
  using publish_returns [OF l, of ob news] m
    setState_unfold [of stateFn s news newState an st] f
  by simp

lemma merged_record_returns: "\<not> isArray s \<Longrightarrow> \<exists>ob. merged s news nv = Inr ob"
  using object_assign_record_returns by (simp add: merged_def)

text \<open>The copy that \<^verbatim>\<open>selectState()\<close> makes of a state of the container's class.\<close>

lemma default_selector_copies:
  assumes "isArray s \<longrightarrow> Array_isArray h v"
  shows "\<exists>ob. object_assign h (isArray s) [v] = Inr ob \<and>
           selectState None s h v = ([ob], Ref (length h))"
proof -
  have "\<exists>ob. object_assign h (isArray s) [v] = Inr ob"
    using assms object_assign_record_returns [of h "[v]"]
      object_assign_array_returns [OF own_enumerable_array_no_length, of h v]
    by (cases "isArray s") auto
  then show ?thesis
    by (auto simp: selectState_def)
qed

section \<open>Calls in sequence\<close>

lemma step_cases:
  assumes "step s x = Inr s'"
  obtains (a_write) f an st where "setState f an st s = Inr s'"
  | (a_subscription) f where "s' = subscribe f s"
proof (cases x)
  case (SetState f an st)
  with assms have "setState f an st s = Inr s'" by simp
  then show ?thesis by (rule a_write)
next
  case ResetState
  with assms have "setState (\<lambda>h c. ([], firstState s)) (Some ''resetState'') None s = Inr s'"
    by (simp add: resetState_def)
  then show ?thesis by (rule a_write)
next
  case RestartState
  with assms have "setState (\<lambda>h c. initialState s h) (Some ''restartState'') None s = Inr s'"
    by (simp add: restartState_def)
  then show ?thesis by (rule a_write)
next
  case (Subscribe f)
  with assms have "s' = subscribe (selectState f s) s" by simp
  then show ?thesis by (rule a_subscription)
qed

lemma exec_induct:
  assumes "P s" and "\<And>t x. P t \<Longrightarrow> P (apply_op t x)"
  shows "P (exec ops s)"
  using assms(1) unfolding exec_def
  by (induction ops arbitrary: s) (simp_all add: assms(2))

lemma apply_op_cases:
  assumes "P s" and "\<And>s'. step s x = Inr s' \<Longrightarrow> P s'"
  shows "P (apply_op s x)"
  using assms by (cases "step s x") (simp_all add: apply_op_def)

lemma subscribe_fields:
  "state_value (subscribe f s) = state_value s" "isArray (subscribe f s) = isArray s"
  "firstState (subscribe f s) = firstState s" "\<exists>ys. heap (subscribe f s) = heap s @ ys"
  using observer_next_heap [of "state_value s" "heap s"
      "\<lparr>project = f, key = None, delivered = []\<rparr>"]
  by (auto simp: subscribe_def split_beta)

lemma constructor_Inr:
  assumes "constructor e h0 = Inr s0"
  shows "\<exists>h2 ob. object_assign h2 (isArray s0) [firstState s0] = Inr ob \<and>
           heap s0 = h2 @ [ob] \<and> state_value s0 = Ref (length h2) \<and>
           isArray s0 = Array_isArray h2 (firstState s0)"
  using assms
  by (auto simp: constructor_def devToolSend_def Let_def
      split: prod.splits sum.splits if_splits)

subsection \<open>The state never has a field \<^verbatim>\<open>__proto__\<close>\<close>

lemma constructor_no_proto_field:
  assumes "constructor e h0 = Inr s0"
  shows "no_proto_field s0"
proof -
  obtain h2 ob where ob: "object_assign h2 (isArray s0) [firstState s0] = Inr ob"
    and h: "heap s0 = h2 @ [ob]" and v: "state_value s0 = Ref (length h2)"
    using constructor_Inr [OF assms] by blast
  show ?thesis
    using object_assign_no_proto_field1 [OF ob]
    by (simp add: no_proto_field_def h v deref_fresh)
qed

lemma merged_no_proto_field:
  assumes inv: "no_proto_field s" and m: "merged s news nv = Inr ob"
  shows "\<not> has_key (Name ''__proto__'') (props ob)"
proof (cases "isArray s")
  case True
  with m show ?thesis
    by (auto simp: merged_def dest: object_assign_no_proto_field1)
next
  case False
  from inv obtain prev where prev: "deref (heap s) (state_value s) = Some prev"
    and nk: "\<not> has_key (Name ''__proto__'') (props prev)"
    by (auto simp: no_proto_field_def split: option.splits)
  have "own_enumerable (heap s @ news) (state_value s) = own_fields prev"
    using deref_append [OF prev] by (rule own_enumerable_deref)
  then have "\<not> has_key (Name ''__proto__'') (own_enumerable (heap s @ news) (state_value s))"
    using nk by (simp add: has_key_own_fields)
  with m False show ?thesis
    by (auto simp: merged_def dest: object_assign_no_proto_field2)
qed

lemma step_no_proto_field:
  assumes ok: "step s x = Inr s'" and inv: "no_proto_field s"
  shows "no_proto_field s'"
  using ok
proof (cases rule: step_cases)
  case (a_write f an st)
  obtain news nv where f: "f (heap s) (state_value s) = (news, nv)"
    by (cases "f (heap s) (state_value s)")
  obtain ob where m: "merged s news nv = Inr ob"
    and p: "publish ob news an st s = Inr s'"
    using setState_Inr [of f an st s s' news nv, OF a_write f] by blast
  show ?thesis
    using publish_snapshot [OF p] merged_no_proto_field [OF inv m]
    by (simp add: no_proto_field_def snapshot_def getCurrentState_def)
next
  case (a_subscription f)
  obtain ys where "heap s' = heap s @ ys"
    using subscribe_fields(4) [of f s] a_subscription by auto
  moreover obtain ob where "deref (heap s) (state_value s) = Some ob"
    "\<not> has_key (Name ''__proto__'') (props ob)"
    using inv by (auto simp: no_proto_field_def split: option.splits)
  ultimately show ?thesis
    using a_subscription by (simp add: no_proto_field_def subscribe_fields deref_append)
qed

lemma exec_no_proto_field:
  assumes "constructor e h0 = Inr s0"
  shows "no_proto_field (exec ops s0)"
proof (rule exec_induct)
  show "no_proto_field s0"
    by (rule constructor_no_proto_field [OF assms])
  show "no_proto_field (apply_op t x)" if inv: "no_proto_field t" for t x
  proof (rule apply_op_cases)
    show "no_proto_field t" by (rule inv)
    show "no_proto_field s'" if "step t x = Inr s'" for s'
      using that inv by (rule step_no_proto_field)
  qed
qed


lemma constructor_profile: "constructor profile_env [] = Inr profile_store"
  by (simp add: model_defs profile_env_def profile_store_def)

lemma constructor_list: "constructor list_env [] = Inr list_store"
  by (simp add: model_defs list_env_def list_store_def)

lemma has_key_Nil: "\<not> has_key k []"
  by (simp add: has_key_def)

lemma map_of_own_fields_array:
  assumes "\<not> has_key (Name ''length'') (props ob)"
  shows "map_of (own_fields ob) = map_of (props ob)"
proof -
  have "filter (\<lambda>kv. fst kv \<noteq> Name ''length'') (props ob) = props ob"
    using assms by (force simp: has_key_def filter_id_conv)
  then show ?thesis
    by (simp add: own_fields_def map_of_integer_keys_first map_of_clearjunk)
qed


section \<open>The merge laws\<close>

text \<open>
  C1, as the code has it. Take a record-shaped container after construction and any
  calls, and a write whose reducer returns a record \<open>partial\<close> that has no field named
  \<^verbatim>\<open>__proto__\<close>, made where the action label is given, not needed or can be cut from
  the stack. The write returns, and the state it leaves is the object
  \<^verbatim>\<open>{...previous, ...partial}\<close>: a field of the partial has the partial's value, any
  other field keeps the previous one.
\<close>

theorem record_merge_law:
  assumes built: "constructor e h0 = Inr s0"
    and reached: "s = exec ops s0"
    and rec: "\<not> isArray s"
    and red: "stateFn (heap s) (getCurrentState s) = (news, partial)"
    and part: "deref (heap s @ news) partial = Some part"
    and own: "\<not> has_key (Name ''__proto__'') (props part)"
    and lab: "label_known s actionName stack"
  shows "\<exists>s' previous.
           setState stateFn actionName stack s = Inr s' \<and>
           snapshot s = Some previous \<and>
           snapshot s' =
             Some (plain_object (spread_of (heap s @ news) (getCurrentState s) partial)) \<and>
           map_of (spread_of (heap s @ news) (getCurrentState s) partial) =
             map_of (own_fields previous) ++ map_of (own_fields part)"
proof -
  let ?h = "heap s @ news"
  from red have f: "stateFn (heap s) (state_value s) = (news, partial)"
    by (simp add: getCurrentState_def)
  have "no_proto_field s"
    unfolding reached by (rule exec_no_proto_field [OF built])
  then obtain previous where prev: "deref (heap s) (state_value s) = Some previous"
    and nk: "\<not> has_key (Name ''__proto__'') (props previous)"
    by (auto simp: no_proto_field_def split: option.splits)
  have e1: "own_enumerable ?h (state_value s) = own_fields previous"
    using deref_append [OF prev] by (rule own_enumerable_deref)
  have e2: "own_enumerable ?h partial = own_fields part"
    using part by (rule own_enumerable_deref)
  have m: "merged s news partial = Inr (plain_object (spread_of ?h (state_value s) partial))"
    using rec nk own
    by (simp add: merged_def object_assign_record e1 e2 has_key_own_fields)
  obtain s' where s': "setState stateFn actionName stack s = Inr s'"
    using setState_returns [of stateFn s news partial _ actionName stack, OF f m lab]
    by blast
  obtain ob where "merged s news partial = Inr ob"
    and p: "publish ob news actionName stack s = Inr s'"
    using setState_Inr [of stateFn actionName stack s s' news partial, OF s' f] by blast
  with m have ob: "ob = plain_object (spread_of ?h (state_value s) partial)"
    by simp
  have "snapshot s' = Some ob"
    by (rule publish_snapshot [OF p])
  moreover have "snapshot s = Some previous"
    using prev by (simp add: snapshot_def getCurrentState_def)
  moreover have "map_of (spread_of ?h (state_value s) partial) =
      map_of (own_fields previous) ++ map_of (own_fields part)"
    by (simp add: map_of_spread_of e1 e2)
  ultimately show ?thesis
    using s' by (simp add: ob getCurrentState_def)
qed

lemma noted_store_eval:
  "heap noted_store =
     [plain_object [(Name ''name'', JStr ''a''), (Name ''age'', JNum 1)],
      plain_object [(Name ''name'', JStr ''a''), (Name ''age'', JNum 1)],
      plain_object [(Name ''note'', JStr ''x'')],
      plain_object [(Name ''name'', JStr ''a''), (Name ''age'', JNum 1), (Name ''note'', JStr ''x'')]]"
  "state_value noted_store = Ref 3" "isArray noted_store = False"
  "devToolIsEnabled noted_store = False"
  by (simp_all add: noted_store_def add_note_def model_defs profile_store_def)

theorem record_merge_law_witness:
  "constructor profile_env [] = Inr profile_store \<and>
   noted_store = exec [add_note] profile_store \<and>
   \<not> isArray noted_store \<and>
   deref (heap noted_store @ [plain_object [(Name ''age'', JNum 2)]]) (Ref 4) =
     Some (plain_object [(Name ''age'', JNum 2)]) \<and>
   \<not> has_key (Name ''__proto__'') (props (plain_object [(Name ''age'', JNum 2)])) \<and>
   label_known noted_store (Some ''setAge'') None \<and>
   (\<exists>s'. setState (returning (new_object [(Name ''age'', JNum 2)])) (Some ''setAge'') None
            noted_store = Inr s' \<and>
      snapshot noted_store =
        Some (plain_object
          [(Name ''name'', JStr ''a''), (Name ''age'', JNum 1), (Name ''note'', JStr ''x'')]) \<and>
      snapshot s' =
        Some (plain_object
          [(Name ''name'', JStr ''a''), (Name ''age'', JNum 2), (Name ''note'', JStr ''x'')]))"
proof -
  let ?f = "returning (new_object [(Name ''age'', JNum 2)])"
  let ?part = "plain_object [(Name ''age'', JNum 2)]"
  have h1: "\<not> isArray noted_store"
    by (simp add: noted_store_eval)
  have h2: "?f (heap noted_store) (getCurrentState noted_store) = ([?part], Ref 4)"
    by (simp add: noted_store_eval returning_def new_object_def getCurrentState_def)
  have h3: "deref (heap noted_store @ [?part]) (Ref 4) = Some ?part"
    by (simp add: noted_store_eval deref_def)
  have h4: "\<not> has_key (Name ''__proto__'') (props ?part)"
    by (simp add: plain_object_def has_key_def)
  have h5: "label_known noted_store (Some ''setAge'') None"
    by (simp add: label_known_def noted_store_eval)
  have sp: "spread_of (heap noted_store @ [?part]) (getCurrentState noted_store) (Ref 4) =
      [(Name ''name'', JStr ''a''), (Name ''age'', JNum 2), (Name ''note'', JStr ''x'')]"
    by (simp add: noted_store_eval getCurrentState_def spread_of_def own_enumerable_def
        deref_def own_fields_def integer_keys_first_def plain_object_def is_idx_def)
  have sn: "snapshot noted_store =
      Some (plain_object
        [(Name ''name'', JStr ''a''), (Name ''age'', JNum 1), (Name ''note'', JStr ''x'')])"
    by (simp add: snapshot_def getCurrentState_def noted_store_eval deref_def)
  from record_merge_law [where stateFn = "?f" and s = noted_store and actionName = "Some ''setAge''",
      OF constructor_profile noted_store_def h1 h2 h3 h4 h5]
    constructor_profile noted_store_def h1 h3 h4 h5 sn
  show ?thesis
    unfolding sp by auto
qed

text \<open>
  C1, as the specification states it, fails. \<^verbatim>\<open>Object.assign\<close> assigns, and the
  assignment to \<^verbatim>\<open>__proto__\<close> runs the built-in setter. After
  \<^verbatim>\<open>setState(() => JSON.parse('{"age": 2, "__proto__": {"admin": true}}'))\<close> the profile
  container holds \<^verbatim>\<open>{name: 'a', age: 2}\<close> with the parsed inner object as its prototype,
  while \<^verbatim>\<open>{...previous, ...partial}\<close> has a third field, \<^verbatim>\<open>__proto__\<close>.
\<close>

lemma load_run_eval:
  "snapshot load_run =
     Some \<lparr>is_array = False, len = 0, proto = Proto 2,
           props = [(Name ''name'', JStr ''a''), (Name ''age'', JNum 2)]\<rparr>"
  "spread_of (heap load_run) (Ref 1) (Ref 3) =
     [(Name ''name'', JStr ''a''), (Name ''age'', JNum 2), (Name ''__proto__'', Ref 2)]"
  by (simp_all add: load_run_def load_write_def parsed_partial_def model_defs profile_store_def)

theorem record_merge_proto_counterexample:
  "snapshot load_run =
     Some \<lparr>is_array = False, len = 0, proto = Proto 2,
           props = [(Name ''name'', JStr ''a''), (Name ''age'', JNum 2)]\<rparr> \<and>
   spread_of (heap load_run) (Ref 1) (Ref 3) =
     [(Name ''name'', JStr ''a''), (Name ''age'', JNum 2), (Name ''__proto__'', Ref 2)]"
  by (rule conjI) (rule load_run_eval)+

text \<open>
  C2, as the code has it. Take an array-shaped container and a write whose reducer
  returns an array \<open>next\<close> that ends in an element (its length is what its elements
  need) and has no field named \<^verbatim>\<open>__proto__\<close>, made where the action label is given, not
  needed or can be cut from the stack. The write returns, and the state it leaves is an
  array of the length of \<open>next\<close> with exactly the own enumerable properties of
  \<open>next\<close>: nothing of the previous array is kept.
\<close>

theorem sequence_replace_law:
  assumes arr: "isArray s"
    and red: "stateFn (heap s) (getCurrentState s) = (news, next)"
    and nxt: "deref (heap s @ news) next = Some nxt"
    and isarr: "is_array nxt"
    and own: "\<not> has_key (Name ''__proto__'') (props nxt)"
    and dense: "len nxt = own_len (own_fields nxt)"
    and lab: "label_known s actionName stack"
  shows "\<exists>s' ob.
           setState stateFn actionName stack s = Inr s' \<and>
           snapshot s' = Some ob \<and> is_array ob \<and> len ob = len nxt \<and>
           map_of (props ob) = map_of (own_fields nxt) \<and>
           structurally_equal (heap s') (getCurrentState s') next"
proof -
  let ?h = "heap s @ news"
  let ?ob = "array_object (own_len (own_fields nxt)) (set_all [] (own_fields nxt))"
  from red have f: "stateFn (heap s) (state_value s) = (news, next)"
    by (simp add: getCurrentState_def)
  have e: "own_enumerable ?h next = own_fields nxt"
    using nxt by (rule own_enumerable_deref)
  have m: "merged s news next = Inr ?ob"
    using arr own isarr by (simp add: merged_def object_assign_array e has_key_own_fields)
  obtain s' where s': "setState stateFn actionName stack s = Inr s'"
    using setState_returns [of stateFn s news "next" _ actionName stack, OF f m lab]
    by blast
  obtain ob where "merged s news next = Inr ob"
    and p: "publish ob news actionName stack s = Inr s'"
    using setState_Inr [of stateFn actionName stack s s' news "next", OF s' f] by blast
  with m have ob: "ob = ?ob" by simp
  have snap: "snapshot s' = Some ?ob"
    using publish_snapshot [OF p] ob by simp
  have fields: "map_of (props ?ob) = map_of (own_fields nxt)"
    by (simp add: array_object_def map_of_set_all distinct_own_fields)
  have nl: "\<not> has_key (Name ''length'') (props ?ob)"
    using isarr by (simp add: array_object_def has_key_set_all has_key_own_fields has_key_Nil)
  obtain ys where "heap s' = ?h @ [ob] @ ys"
    using publish_Inr(1) [OF p] by auto
  then have "deref (heap s') next = Some nxt"
    using deref_append [OF nxt] by simp
  then have "structurally_equal (heap s') (getCurrentState s') next"
    using snap isarr dense fields map_of_own_fields_array [OF nl]
    by (simp add: structurally_equal_def snapshot_def array_object_def)
  then show ?thesis
    using s' snap fields dense by (simp add: array_object_def)
qed

theorem sequence_replace_law_witness:
  "isArray list_store \<and>
   deref (heap list_store @ [array_object 1 [(Idx 0, JNum 9)]]) (Ref 2) =
     Some (array_object 1 [(Idx 0, JNum 9)]) \<and>
   is_array (array_object 1 [(Idx 0, JNum 9)]) \<and>
   \<not> has_key (Name ''__proto__'') (props (array_object 1 [(Idx 0, JNum 9)])) \<and>
   len (array_object 1 [(Idx 0, JNum 9)]) =
     own_len (own_fields (array_object 1 [(Idx 0, JNum 9)])) \<and>
   label_known list_store (Some ''setNine'') None \<and>
   (\<exists>s' ob. setState (returning (new_array [JNum 9])) (Some ''setNine'') None list_store =
              Inr s' \<and>
      snapshot s' = Some ob \<and> is_array ob \<and> len ob = 1 \<and>
      map_of (props ob) = map_of [(Idx 0, JNum 9)] \<and>
      structurally_equal (heap s') (getCurrentState s') (Ref 2))"
proof -
  let ?f = "returning (new_array [JNum 9])"
  let ?nxt = "array_object 1 [(Idx 0, JNum 9)]"
  have h1: "isArray list_store"
    by (simp add: list_store_def)
  have h2: "?f (heap list_store) (getCurrentState list_store) = ([?nxt], Ref 2)"
    by (simp add: list_store_def returning_def new_array_def getCurrentState_def)
  have h3: "deref (heap list_store @ [?nxt]) (Ref 2) = Some ?nxt"
    by (simp add: list_store_def deref_def)
  have h4: "is_array ?nxt"
    by (simp add: array_object_def)
  have h5: "\<not> has_key (Name ''__proto__'') (props ?nxt)"
    by (simp add: array_object_def has_key_def)
  have of: "own_fields ?nxt = [(Idx 0, JNum 9)]"
    by (simp add: own_fields_def integer_keys_first_def array_object_def is_idx_def)
  have h6: "len ?nxt = own_len (own_fields ?nxt)"
    unfolding of by (simp add: array_object_def array_index_def idx_of_def)
  have h7: "label_known list_store (Some ''setNine'') None"
    by (simp add: label_known_def list_store_def)
  from sequence_replace_law [where stateFn = "?f" and s = list_store and
      actionName = "Some ''setNine''", OF h1 h2 h3 h4 h5 h6 h7] h1 h3 h4 h5 h6 h7
  show ?thesis
    unfolding of by (auto simp: array_object_def)
qed

text \<open>
  C2, as the specification states it, fails. \<^verbatim>\<open>Object.assign\<close> copies the own
  enumerable properties, and the length of an array is none: after
  \<^verbatim>\<open>setState(() => new Array(3))\<close> the list container holds an array of length 0, not
  one of length 3.
\<close>

lemma clear_run_eval:
  "snapshot clear_run = Some (array_object 0 [])"
  "deref (heap clear_run) (Ref 2) = Some (array_object 3 [])"
  "getCurrentState clear_run = Ref 3"
  by (simp_all add: clear_run_def clear_write_def new_Array_3_def model_defs list_store_def)

theorem sequence_replace_hole_counterexample:
  "snapshot clear_run = Some (array_object 0 []) \<and>
   deref (heap clear_run) (Ref 2) = Some (array_object 3 []) \<and>
   \<not> structurally_equal (heap clear_run) (getCurrentState clear_run) (Ref 2)"
proof -
  have "\<not> structurally_equal (heap clear_run) (getCurrentState clear_run) (Ref 2)"
    using clear_run_eval
    by (simp add: structurally_equal_def snapshot_def array_object_def)
  then show ?thesis
    using clear_run_eval by simp
qed

section \<open>Selectors\<close>

lemma distinctUntilChanged_inv: "sub_inv sb \<Longrightarrow> sub_inv (distinctUntilChanged k sb)"
  by (auto simp: sub_inv_def distinctUntilChanged_def distinct_adj_append_iff split: if_splits)

lemma observer_next_inv: "sub_inv sb \<Longrightarrow> sub_inv (snd (observer_next v h sb))"
  by (simp add: observer_next_def distinctUntilChanged_inv split: prod.split)

lemma notify_all_inv:
  "list_all sub_inv sbs \<Longrightarrow> list_all sub_inv (snd (notify_all v h sbs))"
proof (induction sbs arbitrary: h)
  case Nil
  then show ?case by simp
next
  case (Cons sb sbs)
  then have "sub_inv (snd (observer_next v h sb))" and "list_all sub_inv sbs"
    by (simp_all add: observer_next_inv)
  then show ?case
    using Cons.IH [of "fst (observer_next v h sb)"]
    by (simp add: split_beta)
qed

lemma subject_next_observers:
  "observers (subject_next v s) = snd (notify_all v (heap s) (observers s))"
  by (simp add: subject_next_def split: prod.split)

lemma publish_observers:
  assumes "publish ob news an st s = Inr s'"
  shows "\<exists>v h. observers s' = snd (notify_all v h (observers s))"
proof -
  define s1 where "s1 = s\<lparr>heap := (heap s @ news) @ [ob]\<rparr>"
  define v where "v = Ref (length (heap s @ news))"
  from assms obtain r s2 where d: "devToolSend v an st s1 = Inr (r, s2)"
    and s': "s' = subject_next v
                   (if localStorageIsEnabled s2 then setItem (storeName s2) v s2 else s2)"
    by (auto simp: publish_def Let_def s1_def v_def split: sum.splits prod.splits)
  have "observers s2 = observers s"
    using devToolSend_fields(3) [OF d] by (simp add: s1_def)
  then show ?thesis
    unfolding s' subject_next_observers by (auto simp: setItem_def)
qed

lemma setState_observers:
  assumes "setState stateFn an st s = Inr s'"
  shows "\<exists>v h. observers s' = snd (notify_all v h (observers s))"
proof -
  obtain news newState where f: "stateFn (heap s) (state_value s) = (news, newState)"
    by (cases "stateFn (heap s) (state_value s)")
  obtain ob where "publish ob news an st s = Inr s'"
    using setState_Inr [of stateFn an st s s' news newState, OF assms f] by blast
  then show ?thesis by (rule publish_observers)
qed

lemma setState_inv:
  assumes ok: "setState stateFn an st s = Inr s'" and inv: "list_all sub_inv (observers s)"
  shows "list_all sub_inv (observers s')"
proof -
  obtain v h where "observers s' = snd (notify_all v h (observers s))"
    using setState_observers [OF ok] by blast
  then show ?thesis using inv by (simp add: notify_all_inv)
qed

lemma subscribe_inv:
  assumes inv: "list_all sub_inv (observers s)"
  shows "list_all sub_inv (observers (subscribe f s))"
proof -
  have "sub_inv \<lparr>project = f, key = None, delivered = []\<rparr>"
    by (simp add: sub_inv_def)
  then have "sub_inv (snd (observer_next (state_value s) (heap s)
                \<lparr>project = f, key = None, delivered = []\<rparr>))"
    by (rule observer_next_inv)
  then show ?thesis using inv by (simp add: subscribe_def split_beta)
qed

lemma step_inv:
  assumes ok: "step s x = Inr s'" and inv: "list_all sub_inv (observers s)"
  shows "list_all sub_inv (observers s')"
  using ok
proof (cases rule: step_cases)
  case (a_write f an st)
  then show ?thesis using inv by (rule setState_inv)
next
  case (a_subscription f)
  then show ?thesis using inv by (simp add: subscribe_inv)
qed

lemma apply_op_inv:
  assumes "list_all sub_inv (observers s)"
  shows "list_all sub_inv (observers (apply_op s x))"
proof (cases "step s x")
  case (Inl err)
  then show ?thesis using assms by (simp add: apply_op_def)
next
  case (Inr s')
  then show ?thesis using step_inv [OF Inr assms] by (simp add: apply_op_def)
qed

lemma constructor_observers: "constructor e h0 = Inr s0 \<Longrightarrow> observers s0 = []"
  by (auto simp: constructor_def devToolSend_def Let_def split: prod.splits sum.splits if_splits)

lemma watched_run_heap:
  "heap watched_run =
     [(plain_object [(Name ''name'', JStr ''a''), (Name ''age'', JNum 1)]),
      (plain_object [(Name ''name'', JStr ''a''), (Name ''age'', JNum 1)]),
      (plain_object [(Name ''name'', JStr ''a''), (Name ''age'', JNum 1)]),
      (plain_object []),
      (plain_object [(Name ''name'', JStr ''a''), (Name ''age'', JNum 1)]),
      (plain_object [(Name ''name'', JStr ''a''), (Name ''age'', JNum 1)])]"
  by (simp add: watched_run_def noop_write_def model_defs profile_store_def)

lemma watched_run_observers:
  "observers watched_run =
     [\<lparr>project = selectState None profile_store, key = Some (Ref 5),
       delivered = [Ref 2, Ref 5]\<rparr>]"
  by (simp add: watched_run_def noop_write_def model_defs profile_store_def)

text \<open>
  C3, as the code has it. \<^verbatim>\<open>distinctUntilChanged()\<close> is called without a comparator, so
  it compares with \<^verbatim>\<open>===\<close>: for every subscriber of \<^verbatim>\<open>selectState(f)\<close>, after any calls,
  no two consecutive delivered values are the same value (the same primitive or the same
  reference), and the next emission is delivered unless its projection is the very value
  delivered last.
\<close>

theorem selector_distinctness:
  assumes built: "constructor e h0 = Inr s0"
    and sub: "sb \<in> set (observers (exec ops s0))"
    and proj: "project sb h v = (news, k)"
  shows "distinct_adj (delivered sb) \<and>
         delivered (snd (observer_next v h sb)) =
           (if delivered sb \<noteq> [] \<and> last (delivered sb) = k then delivered sb
            else delivered sb @ [k])"
proof -
  have "list_all sub_inv (observers s0)"
    by (simp add: constructor_observers [OF built])
  then have "list_all sub_inv (observers (exec ops s0))"
    by (rule exec_induct) (rule apply_op_inv)
  with sub have inv: "sub_inv sb"
    by (simp add: list_all_iff)
  have "key sb = Some k \<longleftrightarrow> delivered sb \<noteq> [] \<and> last (delivered sb) = k"
    using inv by (auto simp: sub_inv_def)
  then show ?thesis
    using inv proj by (simp add: sub_inv_def observer_next_def distinctUntilChanged_def)
qed

theorem selector_distinctness_witness:
  "constructor profile_env [] = Inr profile_store \<and>
   hd (observers watched_run) \<in> set (observers watched_run) \<and>
   project (hd (observers watched_run)) (heap watched_run) (Ref 5) =
     ([(plain_object [(Name ''name'', JStr ''a''), (Name ''age'', JNum 1)])],
      Ref 6) \<and>
   distinct_adj (delivered (hd (observers watched_run))) \<and>
   delivered (snd (observer_next (Ref 5) (heap watched_run) (hd (observers watched_run)))) =
     [Ref 2, Ref 5, Ref 6]"
proof -
  have h1: "constructor profile_env [] = Inr profile_store"
    by (rule constructor_profile)
  have h2: "hd (observers watched_run) \<in>
      set (observers (exec [Subscribe None, noop_write] profile_store))"
    unfolding watched_run_def [symmetric] by (simp add: watched_run_observers)
  have h3: "project (hd (observers watched_run)) (heap watched_run) (Ref 5) =
     ([(plain_object [(Name ''name'', JStr ''a''), (Name ''age'', JNum 1)])],
      Ref 6)"
    unfolding watched_run_heap watched_run_observers
    by (simp add: model_defs profile_store_def)
  have d: "delivered (hd (observers watched_run)) = [Ref 2, Ref 5]"
    by (simp add: watched_run_observers)
  from selector_distinctness [OF h1 h2 h3] h1 h3 d show ?thesis
    by (simp add: watched_run_observers)
qed

text \<open>
  C3, as the specification states it, fails. The subscriber of \<^verbatim>\<open>selectState()\<close> on the
  profile container gets a copy of the state at subscription and another after
  \<^verbatim>\<open>setState(() => ({}), 'noop')\<close>: two consecutive deliveries, different references,
  structurally equal.
\<close>

theorem selector_structural_counterexample:
  "map delivered (observers watched_run) = [[Ref 2, Ref 5]] \<and>
   structurally_equal (heap watched_run) (Ref 2) (Ref 5)"
proof -
  have "structurally_equal (heap watched_run) (Ref 2) (Ref 5)"
    unfolding watched_run_heap by (simp add: structurally_equal_def deref_def)
  moreover have "map delivered (observers watched_run) = [[Ref 2, Ref 5]]"
    by (simp add: watched_run_observers)
  ultimately show ?thesis by simp
qed

section \<open>Reset, shape and aliasing\<close>

text \<open>
  C4 at a failing input. \<^verbatim>\<open>resetState()\<close> merges the first state over the current one,
  so a field that a write added and the first state lacks survives the reset: after
  \<^verbatim>\<open>setState(() => ({note: 'x'}))\<close> and \<^verbatim>\<open>resetState()\<close> the profile container holds
  \<^verbatim>\<open>{name: 'a', age: 1, note: 'x'}\<close>, while its first state is \<^verbatim>\<open>{name: 'a', age: 1}\<close>.
\<close>

theorem reset_keeps_added_field:
  "snapshot reset_run =
     Some (plain_object [(Name ''name'', JStr ''a''), (Name ''age'', JNum 1), (Name ''note'', JStr ''x'')]) \<and>
   deref (heap reset_run) (firstState reset_run) =
     Some (plain_object [(Name ''name'', JStr ''a''), (Name ''age'', JNum 1)])"
  by (simp add: reset_run_def add_note_def model_defs profile_store_def)

lemma step_shape:
  assumes ok: "step s x = Inr s'" and inv: "shape_inv s"
  shows "shape_inv s' \<and> isArray s' = isArray s"
  using ok
proof (cases rule: step_cases)
  case (a_write f an st)
  obtain news nv where f: "f (heap s) (state_value s) = (news, nv)"
    by (cases "f (heap s) (state_value s)")
  obtain ob where m: "merged s news nv = Inr ob"
    and p: "publish ob news an st s = Inr s'"
    using setState_Inr [of f an st s s' news nv, OF a_write f] by blast
  have "snapshot s' = Some ob"
    by (rule publish_snapshot [OF p])
  moreover have "isArray s' = isArray s"
    by (rule publish_Inr(3) [OF p])
  ultimately show ?thesis
    using is_array_merged [OF m]
    by (simp add: shape_inv_def snapshot_def getCurrentState_def)
next
  case (a_subscription f)
  obtain ys where "heap s' = heap s @ ys"
    using subscribe_fields(4) [of f s] a_subscription by auto
  moreover obtain ob where "deref (heap s) (state_value s) = Some ob" "is_array ob = isArray s"
    using inv by (auto simp: shape_inv_def split: option.splits)
  ultimately show ?thesis
    using a_subscription by (simp add: shape_inv_def subscribe_fields deref_append)
qed

lemma apply_op_shape:
  assumes "shape_inv s \<and> isArray s = b"
  shows "shape_inv (apply_op s x) \<and> isArray (apply_op s x) = b"
proof (cases "step s x")
  case (Inl err)
  then show ?thesis using assms by (simp add: apply_op_def)
next
  case (Inr s')
  then show ?thesis using step_shape [OF Inr] assms by (simp add: apply_op_def)
qed

lemma constructor_shape:
  assumes "constructor e h0 = Inr s0"
  shows "shape_inv s0"
    and "Array_isArray (heap s0) (firstState s0) \<Longrightarrow> isArray s0"
    and "record_shaped (heap s0) (firstState s0) \<Longrightarrow> \<not> isArray s0"
proof -
  obtain h2 ob where ob: "object_assign h2 (isArray s0) [firstState s0] = Inr ob"
    and h: "heap s0 = h2 @ [ob]"
    and v: "state_value s0 = Ref (length h2)"
    and a: "isArray s0 = Array_isArray h2 (firstState s0)"
    using constructor_Inr [OF assms] by blast
  note c = object_assign_class [OF ob]
  show "shape_inv s0"
    by (simp add: shape_inv_def h v deref_fresh c)
  show "isArray s0" if "Array_isArray (heap s0) (firstState s0)"
    using that a c unfolding h
    by (cases "firstState s0")
      (auto simp: Array_isArray_def deref_def nth_append split: if_splits)
  show "\<not> isArray s0" if "record_shaped (heap s0) (firstState s0)"
    using that a c unfolding h
    by (cases "firstState s0")
      (auto simp: Array_isArray_def record_shaped_def deref_def nth_append split: if_splits)
qed

text \<open>
  C5. After construction and any sequence of calls (writes that return, writes that
  throw, resets, restarts, subscriptions), \<^verbatim>\<open>getCurrentState()\<close> is an array if the first
  state was an array and a record if the first state was a record.
\<close>

theorem shape_invariant:
  assumes built: "constructor e h0 = Inr s0"
  shows "(Array_isArray (heap s0) (firstState s0) \<longrightarrow>
            Array_isArray (heap (exec ops s0)) (getCurrentState (exec ops s0))) \<and>
         (record_shaped (heap s0) (firstState s0) \<longrightarrow>
            record_shaped (heap (exec ops s0)) (getCurrentState (exec ops s0)))"
proof -
  have "shape_inv s0 \<and> isArray s0 = isArray s0"
    by (simp add: constructor_shape(1) [OF built])
  then have "shape_inv (exec ops s0) \<and> isArray (exec ops s0) = isArray s0"
    by (rule exec_induct) (rule apply_op_shape)
  then have "Array_isArray (heap (exec ops s0)) (getCurrentState (exec ops s0)) = isArray s0"
    and "record_shaped (heap (exec ops s0)) (getCurrentState (exec ops s0)) = (\<not> isArray s0)"
    by (auto simp: shape_inv_def Array_isArray_def record_shaped_def getCurrentState_def
        split: option.splits)
  then show ?thesis
    using constructor_shape(2,3) [OF built] by blast
qed

theorem shape_invariant_witness:
  "constructor list_env [] = Inr list_store \<and>
   Array_isArray (heap list_store) (firstState list_store) \<and>
   Array_isArray (heap (exec [set_nine, ResetState] list_store))
     (getCurrentState (exec [set_nine, ResetState] list_store)) \<and>
   constructor profile_env [] = Inr profile_store \<and>
   record_shaped (heap profile_store) (firstState profile_store) \<and>
   record_shaped (heap (exec [set_age, RestartState] profile_store))
     (getCurrentState (exec [set_age, RestartState] profile_store))"
proof -
  have a: "Array_isArray (heap list_store) (firstState list_store)"
    by (simp add: list_store_def Array_isArray_def deref_def array_object_def)
  have r: "record_shaped (heap profile_store) (firstState profile_store)"
    by (simp add: profile_store_def record_shaped_def deref_def plain_object_def)
  from shape_invariant [OF constructor_list, of "[set_nine, ResetState]"]
    shape_invariant [OF constructor_profile, of "[set_age, RestartState]"]
    a r constructor_list constructor_profile
  show ?thesis by simp
qed

text \<open>
  C6 at a failing input. \<^verbatim>\<open>getCurrentState()\<close> returns the subject's value itself, so an
  assignment through the returned reference changes what the container holds although
  no write was made: after \<^verbatim>\<open>store.getCurrentState().age = 99\<close> the profile container
  reports \<^verbatim>\<open>{name: 'a', age: 99}\<close>.
\<close>

theorem getCurrentState_is_internal_reference:
  "getCurrentState profile_store = state_value profile_store \<and>
   trace tampered = [] \<and>
   snapshot tampered =
     Some (plain_object [(Name ''name'', JStr ''a''), (Name ''age'', JNum 99)])"
  by (simp add: tampered_def model_defs profile_store_def)

section \<open>The action label and the order of a write's effects\<close>

lemma constructor_tracked: "constructor tracked_env [] = Inr tracked_store"
  by (simp add: model_defs tracked_env_def profile_env_def tracked_store_def)

lemma v8_label: "stack_label (Some v8_stack) = Inr (Some ''birthday'')"
  by (simp add: stack_label_def nth_opt_def trim_def is_ws_def v8_stack_def)

lemma gecko_label: "stack_label (Some gecko_stack) = Inl TypeError"
  by (simp add: stack_label_def nth_opt_def trim_def is_ws_def gecko_stack_def)

text \<open>
  C7 at a failing input. With the dev tool enabled, a write without action name takes
  its label from the fourth line of \<^verbatim>\<open>new Error().stack\<close>, split at blanks. A stack in
  SpiderMonkey's format has no blanks: the second word is \<^verbatim>\<open>undefined\<close>, and the call
  of \<^verbatim>\<open>split\<close> on it is a TypeError that reaches the caller of \<^verbatim>\<open>setState\<close>. Nothing
  was sent, stored or published, and the container keeps its state. The same write
  under V8's format is labelled \<^verbatim>\<open>birthday\<close> and goes through.
\<close>

theorem unnamed_write_throws:
  "devToolIsEnabled tracked_store \<and>
   stack_label (Some gecko_stack) = Inl TypeError \<and>
   step tracked_store (unnamed_write gecko_stack) = Inl TypeError \<and>
   apply_op tracked_store (unnamed_write gecko_stack) = tracked_store \<and>
   stack_label (Some v8_stack) = Inr (Some ''birthday'') \<and>
   trace (apply_op tracked_store (unnamed_write v8_stack)) =
     trace tracked_store @
     [DevToolSend ''ProfileStore'' (Some ''birthday'') (Ref 3), SetItem ''ProfileStore'' (Ref 3),
      Next (Ref 3)]"
proof -
  have a: "step tracked_store (unnamed_write gecko_stack) = Inl TypeError"
    by (simp add: model_defs unnamed_write_def tracked_store_def gecko_label)
  then have b: "apply_op tracked_store (unnamed_write gecko_stack) = tracked_store"
    by (simp add: apply_op_def)
  have c: "trace (apply_op tracked_store (unnamed_write v8_stack)) =
     trace tracked_store @
     [DevToolSend ''ProfileStore'' (Some ''birthday'') (Ref 3), SetItem ''ProfileStore'' (Ref 3),
      Next (Ref 3)]"
    by (simp add: model_defs unnamed_write_def tracked_store_def v8_label)
  have d: "devToolIsEnabled tracked_store"
    by (simp add: tracked_store_def)
  from a b c d gecko_label v8_label show ?thesis by simp
qed

text \<open>
  C8. A write that returns has made its calls in this order: the merged state to the
  debug bridge if that is enabled, then to the persistence adapter under the store name
  if that is enabled, then to the subject. The merged state is what the subject holds
  afterwards.
\<close>

theorem write_order:
  assumes ok: "setState stateFn actionName stack s = Inr s'"
  shows "\<exists>name. trace s' = trace s @
           (if devToolIsEnabled s
            then [DevToolSend (storeName s) name (getCurrentState s')] else []) @
           (if localStorageIsEnabled s then [SetItem (storeName s) (getCurrentState s')] else []) @
           [Next (getCurrentState s')]"
proof -
  obtain news newState where f: "stateFn (heap s) (state_value s) = (news, newState)"
    by (cases "stateFn (heap s) (state_value s)")
  obtain ob where "publish ob news actionName stack s = Inr s'"
    using setState_Inr [of stateFn actionName stack s s' news newState, OF ok f] by blast
  then show ?thesis
    by (auto simp: publish_def devToolSend_def getCurrentState_def Let_def setItem_def
        subject_next_def send_def split: prod.splits sum.splits if_splits)
qed

theorem write_order_witness:
  "setState (returning (new_object [(Name ''age'', JNum 2)])) (Some ''setAge'') None
     tracked_store = Inr (apply_op tracked_store set_age) \<and>
   trace (apply_op tracked_store set_age) =
     trace tracked_store @
     [DevToolSend ''ProfileStore'' (Some ''setAge'') (Ref 3), SetItem ''ProfileStore'' (Ref 3),
      Next (Ref 3)] \<and>
   (\<exists>name. trace (apply_op tracked_store set_age) =
      trace tracked_store @
      [DevToolSend ''ProfileStore'' name (Ref 3), SetItem ''ProfileStore'' (Ref 3),
       Next (Ref 3)])"
proof -
  have h: "setState (returning (new_object [(Name ''age'', JNum 2)])) (Some ''setAge'') None
      tracked_store = Inr (apply_op tracked_store set_age)"
    by (simp add: model_defs set_age_def tracked_store_def)
  have v: "getCurrentState (apply_op tracked_store set_age) = Ref 3"
    by (simp add: model_defs set_age_def tracked_store_def)
  have t: "trace (apply_op tracked_store set_age) =
     trace tracked_store @
     [DevToolSend ''ProfileStore'' (Some ''setAge'') (Ref 3), SetItem ''ProfileStore'' (Ref 3),
      Next (Ref 3)]"
    by (simp add: model_defs set_age_def tracked_store_def)
  have f: "devToolIsEnabled tracked_store" "localStorageIsEnabled tracked_store"
    "storeName tracked_store = ''ProfileStore''"
    by (simp_all add: tracked_store_def)
  from write_order [OF h] have "\<exists>name. trace (apply_op tracked_store set_age) =
      trace tracked_store @
      [DevToolSend ''ProfileStore'' name (Ref 3), SetItem ''ProfileStore'' (Ref 3),
       Next (Ref 3)]"
    unfolding v by (simp add: f)
  with h t show ?thesis by blast
qed

section \<open>Configuration\<close>

lemma map_of_spread2: "map_of (spread2 a b) = map_of a ++ map_of b"
  by (simp add: spread2_def map_of_set_all map_of_clearjunk)

lemma object_assign_copy_case:
  "(case object_assign h (Array_isArray h v) [v] of Inl err \<Rightarrow> Inl err | Inr ob \<Rightarrow> Inr (g ob)) =
     Inr (g (projr (object_assign h (Array_isArray h v) [v])))"
  using object_assign_copy_returns [of h v] by auto

lemma constructor_returns: "\<exists>s. constructor e h0 = Inr s"
  by (simp add: constructor_def devToolSend_def no_name_def Let_def object_assign_copy_case
      split: prod.splits)

lemma constructor_config:
  assumes "constructor e h0 = Inr s"
  shows "localStoreConfig s = spread2 (injected_config e) (own_config e)"
    and "localStorageIsEnabled s = resolve_bool (localStoreConfig s) ''enableLocalStorage''"
    and "devToolIsEnabled s = resolve_bool (localStoreConfig s) ''enableDevTool''"
    and "storeName s = resolve_name (localStoreConfig s) (class_name e)"
  using assms
  by (auto simp: constructor_def devToolSend_def Let_def injected_config_def own_config_def
      split: prod.splits sum.splits if_splits)

text \<open>
  C10. A concrete class that keeps the inherited \<^verbatim>\<open>storeConfig()\<close>, which returns
  \<^verbatim>\<open>null\<close>, is constructed exactly as one that returns \<^verbatim>\<open>{}\<close>; construction returns;
  the merged configuration has the fields of the process-wide one; each flag is the
  process-wide value when that is a boolean and false otherwise; the store name is the
  process-wide one when that is a string and the class name otherwise.
\<close>

theorem null_store_config:
  "constructor (e\<lparr>store_config := None\<rparr>) h0 = constructor (e\<lparr>store_config := Some []\<rparr>) h0 \<and>
   (\<exists>s. constructor (e\<lparr>store_config := None\<rparr>) h0 = Inr s \<and>
      map_of (localStoreConfig s) = map_of (injected_config e) \<and>
      localStorageIsEnabled s =
        (case map_of (injected_config e) (Name ''enableLocalStorage'') of
           Some (JBool b) \<Rightarrow> b | _ \<Rightarrow> False) \<and>
      devToolIsEnabled s =
        (case map_of (injected_config e) (Name ''enableDevTool'') of
           Some (JBool b) \<Rightarrow> b | _ \<Rightarrow> False) \<and>
      storeName s =
        (case map_of (injected_config e) (Name ''storeName'') of
           Some (JStr n) \<Rightarrow> n | _ \<Rightarrow> class_name e))"
proof -
  let ?e = "e\<lparr>store_config := None\<rparr>"
  have same: "constructor ?e h0 = constructor (e\<lparr>store_config := Some []\<rparr>) h0"
    by (simp add: constructor_def Let_def split: prod.splits sum.splits cong: if_cong)
  obtain s where s: "constructor ?e h0 = Inr s"
    using constructor_returns by blast
  have cfg: "map_of (localStoreConfig s) = map_of (injected_config e)"
    using constructor_config(1) [OF s]
    by (simp add: map_of_spread2 injected_config_def own_config_def)
  have ls: "localStorageIsEnabled s =
      (case map_of (injected_config e) (Name ''enableLocalStorage'') of
         Some (JBool b) \<Rightarrow> b | _ \<Rightarrow> False)"
    using constructor_config(2) [OF s] cfg by (simp add: resolve_bool_def)
  have dt: "devToolIsEnabled s =
      (case map_of (injected_config e) (Name ''enableDevTool'') of
         Some (JBool b) \<Rightarrow> b | _ \<Rightarrow> False)"
    using constructor_config(3) [OF s] cfg by (simp add: resolve_bool_def)
  have nm: "storeName s =
      (case map_of (injected_config e) (Name ''storeName'') of
         Some (JStr n) \<Rightarrow> n | _ \<Rightarrow> class_name e)"
    using constructor_config(4) [OF s] cfg by (simp add: resolve_name_def)
  from s cfg ls dt nm have "\<exists>s. constructor ?e h0 = Inr s \<and>
      map_of (localStoreConfig s) = map_of (injected_config e) \<and>
      localStorageIsEnabled s =
        (case map_of (injected_config e) (Name ''enableLocalStorage'') of
           Some (JBool b) \<Rightarrow> b | _ \<Rightarrow> False) \<and>
      devToolIsEnabled s =
        (case map_of (injected_config e) (Name ''enableDevTool'') of
           Some (JBool b) \<Rightarrow> b | _ \<Rightarrow> False) \<and>
      storeName s =
        (case map_of (injected_config e) (Name ''storeName'') of
           Some (JStr n) \<Rightarrow> n | _ \<Rightarrow> class_name e)"
    by blast
  with same show ?thesis by (rule conjI)
qed

section \<open>Isolation from the collaborators\<close>

lemma nexts_append: "nexts (xs @ ys) = nexts xs @ nexts ys"
  by (induction xs rule: nexts.induct) simp_all

lemma publish_subject:
  assumes ok: "publish ob news an st s = Inr s'"
  shows "heap s' = fst (notify_all (Ref (length (heap s) + length news))
                     (heap s @ news @ [ob]) (observers s))"
    and "observers s' = snd (notify_all (Ref (length (heap s) + length news))
                     (heap s @ news @ [ob]) (observers s))"
    and "nexts (trace s') = nexts (trace s) @ [Ref (length (heap s) + length news)]"
proof -
  define s1 where "s1 = s\<lparr>heap := (heap s @ news) @ [ob]\<rparr>"
  define v where "v = Ref (length (heap s) + length news)"
  from ok obtain r s2 where d: "devToolSend v an st s1 = Inr (r, s2)"
    and s': "s' = subject_next v
                   (if localStorageIsEnabled s2 then setItem (storeName s2) v s2 else s2)"
    by (auto simp: publish_def Let_def s1_def v_def split: sum.splits prod.splits)
  note df = devToolSend_fields [OF d]
  have tr: "nexts (trace s2) = nexts (trace s)"
    using d
    by (auto simp: devToolSend_def s1_def nexts_append split: if_splits sum.splits prod.splits)
  let ?s3 = "if localStorageIsEnabled s2 then setItem (storeName s2) v s2 else s2"
  have h3: "heap ?s3 = heap s @ news @ [ob]" "observers ?s3 = observers s"
    "nexts (trace ?s3) = nexts (trace s)"
    using df tr by (simp_all add: setItem_def s1_def nexts_append)
  show "heap s' = fst (notify_all (Ref (length (heap s) + length news))
                     (heap s @ news @ [ob]) (observers s))"
    unfolding s' v_def [symmetric] using h3 by (simp add: subject_next_def split_beta)
  show "observers s' = snd (notify_all (Ref (length (heap s) + length news))
                     (heap s @ news @ [ob]) (observers s))"
    unfolding s' v_def [symmetric] using h3 by (simp add: subject_next_def split_beta)
  show "nexts (trace s') = nexts (trace s) @ [Ref (length (heap s) + length news)]"
    unfolding s' v_def [symmetric] using h3 by (simp add: subject_next_fields nexts_append)
qed

text \<open>
  The same write on two containers that agree on the subject: both throw in the merge,
  or, the label being known on both sides, both return and agree again.
\<close>

lemma setState_same_subject:
  assumes same: "same_subject s t"
    and ls: "label_known s an st" and lt: "label_known t an st"
  shows "(\<exists>err. setState f an st s = Inl err \<and> setState f an st t = Inl err) \<or>
         (\<exists>s' t'. setState f an st s = Inr s' \<and> setState f an st t = Inr t' \<and>
            same_subject s' t')"
proof -
  obtain news nv where f: "f (heap s) (state_value s) = (news, nv)"
    by (cases "f (heap s) (state_value s)")
  from same have ft: "f (heap t) (state_value t) = (news, nv)"
    using f by (simp add: same_subject_def)
  have m: "merged t news nv = merged s news nv"
    using same by (simp add: merged_def same_subject_def)
  note us = setState_unfold [of f s news nv an st, OF f]
  note ut = setState_unfold [of f t news nv an st, OF ft]
  show ?thesis
  proof (cases "merged s news nv")
    case (Inl err)
    then show ?thesis using us ut m by simp
  next
    case (Inr ob)
    obtain s' where s': "publish ob news an st s = Inr s'"
      using publish_returns [OF ls] by blast
    obtain t' where t': "publish ob news an st t = Inr t'"
      using publish_returns [OF lt] by blast
    have "same_subject s' t'"
      using same publish_subject [OF s'] publish_subject [OF t']
        publish_Inr(2-5) [OF s'] publish_Inr(2-5) [OF t']
      by (simp add: same_subject_def)
    then show ?thesis using us ut m Inr s' t' by simp
  qed
qed

lemma labelled_label_known: "labelled (SetState f an st) \<Longrightarrow> label_known s an st"
  by (simp add: label_known_def split: if_splits)

lemma subscribe_same_subject:
  assumes "same_subject s t" and "f = g"
  shows "same_subject (subscribe f s) (subscribe g t)"
  using assms by (simp add: same_subject_def subscribe_def split_beta)

lemma apply_op_same_subject:
  assumes same: "same_subject s t" and lab: "labelled x"
  shows "same_subject (apply_op s x) (apply_op t x)"
proof (cases x)
  case (SetState f an st)
  from lab SetState have "label_known s an st" "label_known t an st"
    by (simp_all add: labelled_label_known)
  from setState_same_subject [OF same this, of f] SetState same show ?thesis
    by (auto simp: apply_op_def)
next
  case ResetState
  have fs: "firstState t = firstState s" using same by (simp add: same_subject_def)
  have "label_known s (Some ''resetState'') None" "label_known t (Some ''resetState'') None"
    by (simp_all add: label_known_def no_name_def)
  from setState_same_subject [OF same this, of "\<lambda>h c. ([], firstState s)"]
    ResetState same fs
  show ?thesis
    by (auto simp: apply_op_def resetState_def)
next
  case RestartState
  have fs: "initialState t = initialState s" using same by (simp add: same_subject_def)
  have "label_known s (Some ''restartState'') None" "label_known t (Some ''restartState'') None"
    by (simp_all add: label_known_def no_name_def)
  from setState_same_subject [OF same this, of "\<lambda>h c. initialState s h"]
    RestartState same fs
  show ?thesis
    by (auto simp: apply_op_def restartState_def)
next
  case (Subscribe f)
  have "selectState f s = selectState f t"
    using same by (cases f) (simp_all add: selectState_def same_subject_def)
  with Subscribe same show ?thesis
    by (auto simp: apply_op_def intro: subscribe_same_subject)
qed

lemma exec_same_subject:
  assumes "same_subject s t" and "list_all labelled ops"
  shows "same_subject (exec ops s) (exec ops t)"
  using assms unfolding exec_def
  by (induction ops arbitrary: s t) (simp_all add: apply_op_same_subject)

lemma with_collaborators_name: "store_name_of (with_collaborators b e) = store_name_of e"
  by (simp add: store_name_of_def with_collaborators_def resolve_name_def map_of_spread2
      injected_config_def own_config_def map_add_def)

lemma with_collaborators_fields:
  "initial_state (with_collaborators b e) = initial_state e"
  "storage_getItem (with_collaborators b e) = storage_getItem e"
  by (simp_all add: with_collaborators_def)

lemma constructor_no_snapshot:
  assumes built: "constructor e h0 = Inr s"
    and none: "fst (storage_getItem e (store_name_of e) h0) = []"
    and fals: "falsy (snd (storage_getItem e (store_name_of e) h0))"
  shows "heap s = (h0 @ fst (initial_state e h0)) @
           [projr (object_assign (h0 @ fst (initial_state e h0))
              (Array_isArray (h0 @ fst (initial_state e h0)) (snd (initial_state e h0)))
              [snd (initial_state e h0)])]"
    and "state_value s = Ref (length (h0 @ fst (initial_state e h0)))"
    and "firstState s = snd (initial_state e h0)"
    and "isArray s = Array_isArray (h0 @ fst (initial_state e h0)) (snd (initial_state e h0))"
    and "observers s = []"
    and "initialState s = initial_state e"
    and "nexts (trace s) = []"
  using assms
  by (auto simp: constructor_def store_name_of_def injected_config_def own_config_def
      devToolSend_def Let_def object_assign_copy_case
      split: prod.splits sum.splits if_splits)

lemma constructor_same_subject:
  assumes none: "fst (storage_getItem e (store_name_of e) h0) = []"
    and fals: "falsy (snd (storage_getItem e (store_name_of e) h0))"
    and on: "constructor (with_collaborators True e) h0 = Inr s_on"
    and off: "constructor (with_collaborators False e) h0 = Inr s_off"
  shows "same_subject s_on s_off"
proof -
  have a: "fst (storage_getItem (with_collaborators b e)
             (store_name_of (with_collaborators b e)) h0) = []"
    and b: "falsy (snd (storage_getItem (with_collaborators b e)
             (store_name_of (with_collaborators b e)) h0))" for b
    using none fals by (simp_all add: with_collaborators_name with_collaborators_fields)
  show ?thesis
    using constructor_no_snapshot [OF on a b] constructor_no_snapshot [OF off a b]
    by (simp add: same_subject_def with_collaborators_fields)
qed

text \<open>
  C9, as the code has it. Take one concrete class and one sequence of calls, run once
  with both collaborators enabled and once with both disabled. If the persistence adapter
  holds no snapshot under the store name at construction, and every write either carries
  a non-empty action name or is made where the label can be cut from the stack, then both
  runs give the subject the same values in the same order and end with the same heap,
  the same current state and the same deliveries to subscribers.
\<close>

theorem collaborator_isolation:
  assumes none: "fst (storage_getItem e (store_name_of e) h0) = []"
    and fals: "falsy (snd (storage_getItem e (store_name_of e) h0))"
    and lab: "list_all labelled ops"
    and on: "constructor (with_collaborators True e) h0 = Inr s_on"
    and off: "constructor (with_collaborators False e) h0 = Inr s_off"
  shows "heap (exec ops s_on) = heap (exec ops s_off) \<and>
         getCurrentState (exec ops s_on) = getCurrentState (exec ops s_off) \<and>
         nexts (trace (exec ops s_on)) = nexts (trace (exec ops s_off)) \<and>
         observers (exec ops s_on) = observers (exec ops s_off)"
proof -
  have "same_subject s_on s_off"
    by (rule constructor_same_subject [OF none fals on off])
  then have "same_subject (exec ops s_on) (exec ops s_off)"
    using lab by (rule exec_same_subject)
  then show ?thesis
    by (simp add: same_subject_def getCurrentState_def)
qed

lemma profile_collaborators:
  "constructor (with_collaborators True profile_env) [] = Inr tracked_store"
  "constructor (with_collaborators False profile_env) [] = Inr untracked_store"
  by (simp_all add: model_defs with_collaborators_def own_config_def profile_env_def
      tracked_store_def untracked_store_def profile_store_def)

lemma isolation_ops_labelled: "list_all labelled isolation_ops"
  by (simp add: isolation_ops_def set_age_def unnamed_write_def no_name_def v8_label)

theorem collaborator_isolation_witness:
  "fst (storage_getItem profile_env (store_name_of profile_env) []) = [] \<and>
   falsy (snd (storage_getItem profile_env (store_name_of profile_env) [])) \<and>
   list_all labelled isolation_ops \<and>
   constructor (with_collaborators True profile_env) [] = Inr tracked_store \<and>
   constructor (with_collaborators False profile_env) [] = Inr untracked_store \<and>
   nexts (trace (exec isolation_ops untracked_store)) = [Ref 3, Ref 5, Ref 6] \<and>
   nexts (trace (exec isolation_ops tracked_store)) =
     nexts (trace (exec isolation_ops untracked_store)) \<and>
   heap (exec isolation_ops tracked_store) = heap (exec isolation_ops untracked_store) \<and>
   getCurrentState (exec isolation_ops tracked_store) =
     getCurrentState (exec isolation_ops untracked_store)"
proof -
  have h1: "fst (storage_getItem profile_env (store_name_of profile_env) []) = []"
    and h2: "falsy (snd (storage_getItem profile_env (store_name_of profile_env) []))"
    by (simp_all add: profile_env_def no_snapshot_def)
  have n: "nexts (trace (exec isolation_ops untracked_store)) = [Ref 3, Ref 5, Ref 6]"
    by (simp add: isolation_ops_def set_age_def unnamed_write_def untracked_store_def
        profile_store_def model_defs)
  from collaborator_isolation [OF h1 h2 isolation_ops_labelled profile_collaborators]
    h1 h2 n isolation_ops_labelled profile_collaborators
  show ?thesis by simp
qed

text \<open>
  C9, as the specification states it, fails. Where the persistence adapter holds
  \<^verbatim>\<open>{name: 'a', age: 7}\<close> for the store, the run with the collaborators enabled starts
  from that snapshot and the run with them disabled from \<^verbatim>\<open>initialState()\<close>: after the
  same \<^verbatim>\<open>setState(() => ({}), 'noop')\<close> the subject holds different states.
\<close>

theorem collaborator_isolation_counterexample:
  "snapshot_of (run (with_collaborators True saved_env) [noop_write]) =
     Some (plain_object [(Name ''name'', JStr ''a''), (Name ''age'', JNum 7)]) \<and>
   snapshot_of (run (with_collaborators False saved_env) [noop_write]) =
     Some (plain_object [(Name ''name'', JStr ''a''), (Name ''age'', JNum 1)])"
  by (simp add: snapshot_of_def run_def saved_env_def saved_snapshot_def profile_env_def
      with_collaborators_def own_config_def noop_write_def model_defs)

end
